theory Spec2Isabelle
  imports Main "HOL-Library.AList" "HOL-Library.Word"
begin

section \<open>Values, objects and maps of the host language\<close>

text \<open>
  The documentation service of \<^verbatim>\<open>src/index.ts\<close> is built from three hand-written parts:
  \<^verbatim>\<open>SimpleDatabase\<close> (an in-memory record store), \<^verbatim>\<open>SimpleTemplateEngine\<close> (three regular
  expression passes) and \<^verbatim>\<open>SimpleServer\<close> (an exact-match route table with a middleware
  chain); \<^verbatim>\<open>DocumentationService\<close> seeds the store and registers the routes. This theory
  embeds them as functions, first the definitions, class by class, then their properties.
  What a function reads from its environment (\<^verbatim>\<open>randomUUID()\<close>, \<^verbatim>\<open>new Date()\<close>, the host's
  date format and built-in library, the literal page texts) is an argument of its model.

  Records and template contexts are untyped JavaScript values (\<^verbatim>\<open>any\<close>). The values that
  they hold are data (\<open>jsval\<close>): \<^verbatim>\<open>undefined\<close>, \<^verbatim>\<open>null\<close>, booleans, numbers, strings,
  \<^verbatim>\<open>Date\<close> objects, arrays and plain objects, whose elements and properties are data
  again. A \<^verbatim>\<open>Date\<close> is given by its millisecond reading and an object by the list of its
  own properties in insertion order.

  A number is an integer from \<^verbatim>\<open>-2^53\<close> to \<^verbatim>\<open>2^53 - 1\<close>: a 54-bit word, read as a signed
  number by \<open>sint\<close>. A double holds each of these integers exactly, two of them are equal
  as doubles exactly when they are the same word, and the code never calculates with a
  number. Fractions, \<^verbatim>\<open>NaN\<close>, the infinities and larger integers are not modelled (a
  numeral beyond the range denotes the word it wraps to, not a number of that size).
\<close>

datatype jsval =
    VUndef
  | VNull
  | VBool bool
  | VNum "54 word"
  | VStr string
  | VDate nat
  | VArr "jsval list"
  | VObj "(string \<times> jsval) list"

type_synonym obj = "(string \<times> jsval) list"

text \<open>
  Reading a property \<^verbatim>\<open>o[k]\<close> yields any value (\<open>jsany\<close>): a piece of data, or a native
  function or a prototype object of the host's library that \<open>o\<close> inherits. \<open>Native f\<close> is the native
  function whose name is \<open>f\<close>, and \<open>Proto k\<close> is the prototype object of the values of
  kind \<open>k\<close> (\<^verbatim>\<open>Object.prototype\<close>, \<^verbatim>\<open>String.prototype\<close>, ...). These two are never held in
  a record or a context, which are data.
\<close>

datatype kind = KObject | KString | KNumber | KBoolean | KArray | KDate

datatype jsany = Data jsval | Native string | Proto kind

text \<open>
  The names every plain object inherits from \<^verbatim>\<open>Object.prototype\<close>; each is a native
  function. The function under \<^verbatim>\<open>constructor\<close> is \<^verbatim>\<open>Object\<close>, the others are named as
  their key.
\<close>

definition object_prototype_keys :: "string list" where
  "object_prototype_keys =
     [''constructor'', ''hasOwnProperty'', ''isPrototypeOf'', ''propertyIsEnumerable'',
      ''toLocaleString'', ''toString'', ''valueOf'', ''__defineGetter__'',
      ''__defineSetter__'', ''__lookupGetter__'', ''__lookupSetter__'']"

definition native_name :: "string \<Rightarrow> string" where
  "native_name k = (if k = ''constructor'' then ''Object'' else k)"

text \<open>
  \<^verbatim>\<open>o[k]\<close> on a plain object: the own property if there is one, else the inherited
  member, else \<^verbatim>\<open>undefined\<close>. (\<^verbatim>\<open>__proto__\<close> yields the prototype object itself.) A
  property list is read as an object literal: where a key is written twice, the later
  entry is the property's value. (An entry \<^verbatim>\<open>__proto__\<close> of the list is an own property of
  that name, as \<^verbatim>\<open>JSON.parse\<close> makes it; in a literal of the source text
  \<^verbatim>\<open>__proto__: v\<close> sets the prototype instead, and the object is no plain object then.)
\<close>

definition own :: "obj \<Rightarrow> string \<Rightarrow> jsval option" where
  "own ob k = map_of (rev ob) k"

definition inherited :: "string \<Rightarrow> jsany" where
  "inherited k =
     (if k = ''__proto__'' then Proto KObject
      else if k \<in> set object_prototype_keys then Native (native_name k)
      else Data VUndef)"

definition js_get :: "obj \<Rightarrow> string \<Rightarrow> jsany" where
  "js_get ob k = (case own ob k of Some v \<Rightarrow> Data v | None \<Rightarrow> inherited k)"

text \<open>
  Object spread: \<^verbatim>\<open>{...a, ...b}\<close> copies the properties of \<open>b\<close> over those of \<open>a\<close>; a
  key that exists keeps its place, a new key goes to the end.
\<close>

definition spread :: "obj \<Rightarrow> obj \<Rightarrow> obj" where
  "spread target src = fold (\<lambda>(k, v). AList.update k v) src target"

text \<open>
  \<^verbatim>\<open>a === b\<close>, for a value \<open>a\<close> read from a record and a piece of data \<open>b\<close>. Primitives
  compare by value. Dates, arrays, objects and functions compare by reference; a
  condition value handed to \<^verbatim>\<open>find\<close> is built by the caller and is never the very object
  held in or inherited by a record, so the comparison is false for them.
\<close>

fun strict_eq :: "jsany \<Rightarrow> jsval \<Rightarrow> bool" where
  "strict_eq (Data VUndef) VUndef = True"
| "strict_eq (Data VNull) VNull = True"
| "strict_eq (Data (VBool a)) (VBool b) = (a = b)"
| "strict_eq (Data (VNum a)) (VNum b) = (a = b)"
| "strict_eq (Data (VStr a)) (VStr b) = (a = b)"
| "strict_eq _ _ = False"

text \<open>Truthiness, as \<^verbatim>\<open>||\<close> and \<^verbatim>\<open>if\<close> see it: functions and objects are truthy.\<close>

fun truthy :: "jsany \<Rightarrow> bool" where
  "truthy (Data VUndef) = False"
| "truthy (Data VNull) = False"
| "truthy (Data (VBool b)) = b"
| "truthy (Data (VNum n)) = (n \<noteq> 0)"
| "truthy (Data (VStr s)) = (s \<noteq> [])"
| "truthy _ = True"

text \<open>Whether one timestamp is strictly later than another.\<close>

fun later :: "jsany \<Rightarrow> jsany \<Rightarrow> bool" where
  "later (Data (VDate a)) (Data (VDate b)) = (b < a)"
| "later _ _ = False"

section \<open>SimpleDatabase\<close>

text \<open>
  \<^verbatim>\<open>private data: Map<string, Map<string, any>>\<close>. A JavaScript \<^verbatim>\<open>Map\<close> keeps its keys
  in insertion order, \<^verbatim>\<open>set\<close> on a present key replaces the value in place, and \<^verbatim>\<open>delete\<close>
  removes the key: an association list with \<open>AList.update\<close> and \<open>AList.delete\<close>.
  The identifier comes from \<^verbatim>\<open>randomUUID()\<close> and the timestamps from \<^verbatim>\<open>new Date()\<close>; both
  read the environment, so each call's result is an argument of the model.
\<close>

type_synonym table = "(string \<times> obj) list"
type_synonym database = "(string \<times> table) list"

definition createTable :: "database \<Rightarrow> string \<Rightarrow> database" where
  "createTable data tableName = AList.update tableName [] data"

text \<open>
  \<^verbatim>\<open>insert\<close> evaluates \<^verbatim>\<open>new Date()\<close> twice, once for \<^verbatim>\<open>createdAt\<close> and once for
  \<^verbatim>\<open>updatedAt\<close>: \<open>t1\<close> and \<open>t2\<close> are the two readings. It returns the stored record.
\<close>

definition insert_db ::
  "database \<Rightarrow> string \<Rightarrow> obj \<Rightarrow> string \<Rightarrow> nat \<Rightarrow> nat \<Rightarrow> obj \<times> database" where
  "insert_db data tableName record uuid t1 t2 =
     (let data1 = (case map_of data tableName of
                     None \<Rightarrow> createTable data tableName
                   | Some _ \<Rightarrow> data);
          recordWithId =
            spread (spread [] record)
              [(''id'', VStr uuid), (''createdAt'', VDate t1), (''updatedAt'', VDate t2)];
          tbl = (case map_of data1 tableName of Some t \<Rightarrow> t | None \<Rightarrow> [])
      in (recordWithId, AList.update tableName (AList.update uuid recordWithId tbl) data1))"

definition find_db :: "database \<Rightarrow> string \<Rightarrow> obj option \<Rightarrow> obj list" where
  "find_db data tableName conditions =
     (case map_of data tableName of
        None \<Rightarrow> []
      | Some tbl \<Rightarrow>
          (let records = map snd tbl in
           case conditions of
             None \<Rightarrow> records
           | Some conds \<Rightarrow>
               filter (\<lambda>record. list_all (\<lambda>(key, val). strict_eq (js_get record key) val) conds)
                 records))"

text \<open>\<^verbatim>\<open>findById\<close> returns the record or \<^verbatim>\<open>null\<close> (\<open>None\<close>).\<close>

definition findById :: "database \<Rightarrow> string \<Rightarrow> string \<Rightarrow> obj option" where
  "findById data tableName ident =
     (case map_of data tableName of
        None \<Rightarrow> None
      | Some tbl \<Rightarrow> map_of tbl ident)"

text \<open>\<open>now\<close> is the reading of \<^verbatim>\<open>new Date()\<close> in \<^verbatim>\<open>update\<close>.\<close>

definition update_db ::
  "database \<Rightarrow> string \<Rightarrow> string \<Rightarrow> obj \<Rightarrow> nat \<Rightarrow> bool \<times> database" where
  "update_db data tableName ident updates now =
     (case map_of data tableName of
        None \<Rightarrow> (False, data)
      | Some tbl \<Rightarrow>
          (case map_of tbl ident of
             None \<Rightarrow> (False, data)
           | Some record \<Rightarrow>
               (let updatedRecord =
                      spread (spread (spread [] record) updates) [(''updatedAt'', VDate now)]
                in (True, AList.update tableName (AList.update ident updatedRecord tbl) data))))"

definition delete_db :: "database \<Rightarrow> string \<Rightarrow> string \<Rightarrow> bool \<times> database" where
  "delete_db data tableName ident =
     (case map_of data tableName of
        None \<Rightarrow> (False, data)
      | Some tbl \<Rightarrow>
          (map_of tbl ident \<noteq> None, AList.update tableName (AList.delete ident tbl) data))"

section \<open>SimpleTemplateEngine\<close>

text \<open>
  \<^verbatim>\<open>render(template, data)\<close> runs three \<^verbatim>\<open>String.prototype.replace\<close> calls with global
  regular expressions and callback functions, one after the other on the whole text. A
  global replace scans the text from left to right: where the expression matches at the
  current position, the callback's result is emitted and the scan goes on behind the
  match; where it does not, the character is copied and the scan moves one character on.

  Texts are strings of ASCII characters: \<^verbatim>\<open>\w\<close> is \<^verbatim>\<open>[A-Za-z0-9_]\<close> and \<^verbatim>\<open>\s\<close> is the
  ASCII white space. The pieces of the three expressions are matched greedily, one after
  the other. This is what the backtracking matcher computes for them, because in each
  expression a repeated class (\<^verbatim>\<open>\s*\<close>, \<^verbatim>\<open>\s+\<close>, \<^verbatim>\<open>\w+\<close>) is followed by a piece that
  cannot start with a character of that class, so giving characters back never helps.
  Each matcher returns the captured groups and the text behind the match.

  What a callback returns is converted to a string by \<^verbatim>\<open>replace\<close>. The callback or the
  conversion may throw a \<^verbatim>\<open>TypeError\<close>; \<^verbatim>\<open>render\<close> is \<^verbatim>\<open>async\<close>, so the promise is then
  rejected: the result \<open>Inl TypeError\<close>.
\<close>

datatype error = TypeError

definition is_word_char :: "char \<Rightarrow> bool" where
  "is_word_char c \<longleftrightarrow>
     c \<in> set ''abcdefghijklmnopqrstuvwxyzABCDEFGHIJKLMNOPQRSTUVWXYZ0123456789_''"

definition is_space :: "char \<Rightarrow> bool" where
  "is_space c \<longleftrightarrow> c \<in> set [CHR '' '', CHR 0x09, CHR 0x0A, CHR 0x0B, CHR 0x0C, CHR 0x0D]"

text \<open>A literal piece, \<^verbatim>\<open>\s*\<close>, \<^verbatim>\<open>\s+\<close> and \<^verbatim>\<open>(\w+)\<close>.\<close>

definition lit :: "string \<Rightarrow> string \<Rightarrow> string option" where
  "lit p s = (if take (length p) s = p then Some (drop (length p) s) else None)"

definition spaces0 :: "string \<Rightarrow> string option" where
  "spaces0 s = Some (dropWhile is_space s)"

definition spaces1 :: "string \<Rightarrow> string option" where
  "spaces1 s = (if takeWhile is_space s = [] then None else Some (dropWhile is_space s))"

definition word :: "string \<Rightarrow> (string \<times> string) option" where
  "word s =
     (if takeWhile is_word_char s = [] then None
      else Some (takeWhile is_word_char s, dropWhile is_word_char s))"

subsection \<open>Results\<close>

text \<open>
  \<open>cat\<close> puts the texts of two steps that run one after the other together; when a step
  throws, the whole throws. \<open>cat_all\<close> does so for a list of steps.
\<close>

fun cat :: "error + string \<Rightarrow> error + string \<Rightarrow> error + string" where
  "cat (Inl e) b = Inl e"
| "cat (Inr x) (Inl e) = Inl e"
| "cat (Inr x) (Inr y) = Inr (x @ y)"

definition cat_all :: "(error + string) list \<Rightarrow> error + string" where
  "cat_all rs = foldr cat rs (Inr [])"

subsection \<open>The host\<close>

text \<open>
  The code runs on Node.js, version 18 or higher (\<^verbatim>\<open>CONTRIBUTING.md\<close>). Two things depend on
  the host beyond that. \<open>date_text h t\<close> is the text of \<^verbatim>\<open>Date.prototype.toString\<close> for the
  reading \<open>t\<close>, which depends on the time zone. \<open>builtin h k n\<close> tells what the prototype of
  the values of kind \<open>k\<close> defines under a key \<open>n\<close> in addition to the members it has in
  version 18 (\<open>prototype_keys\<close>): the name of that native function, if there is one
  (version 20 adds \<^verbatim>\<open>toSorted\<close> to \<^verbatim>\<open>Array.prototype\<close>, for one). \<^verbatim>\<open>Object.prototype\<close> has the
  same members in all versions, and \<open>builtin\<close> is not asked about it.
\<close>

record host =
  date_text :: "nat \<Rightarrow> string"
  builtin :: "kind \<Rightarrow> string \<Rightarrow> string option"

text \<open>
  The members of \<^verbatim>\<open>String.prototype\<close>, \<^verbatim>\<open>Number.prototype\<close>, \<^verbatim>\<open>Boolean.prototype\<close>,
  \<^verbatim>\<open>Array.prototype\<close> and \<^verbatim>\<open>Date.prototype\<close> whose key is a word, in version 18. Each is a
  native function. It is named as its key, but for the constructors and three members
  that are a second key of another one.
\<close>

definition string_prototype_keys :: "string list" where
  "string_prototype_keys =
     [''constructor'', ''anchor'', ''at'', ''big'', ''blink'', ''bold'', ''charAt'',
      ''charCodeAt'', ''codePointAt'', ''concat'', ''endsWith'', ''fontcolor'', ''fontsize'',
      ''fixed'', ''includes'', ''indexOf'', ''italics'', ''lastIndexOf'', ''link'',
      ''localeCompare'', ''match'', ''matchAll'', ''normalize'', ''padEnd'', ''padStart'',
      ''repeat'', ''replace'', ''replaceAll'', ''search'', ''slice'', ''small'', ''split'',
      ''strike'', ''sub'', ''substr'', ''substring'', ''sup'', ''startsWith'', ''toString'',
      ''trim'', ''trimStart'', ''trimLeft'', ''trimEnd'', ''trimRight'', ''toLocaleLowerCase'',
      ''toLocaleUpperCase'', ''toLowerCase'', ''toUpperCase'', ''valueOf'']"

definition number_prototype_keys :: "string list" where
  "number_prototype_keys =
     [''constructor'', ''toExponential'', ''toFixed'', ''toPrecision'', ''toString'',
      ''valueOf'', ''toLocaleString'']"

definition boolean_prototype_keys :: "string list" where
  "boolean_prototype_keys = [''constructor'', ''toString'', ''valueOf'']"

definition array_prototype_keys :: "string list" where
  "array_prototype_keys =
     [''constructor'', ''at'', ''concat'', ''copyWithin'', ''fill'', ''find'', ''findIndex'',
      ''findLast'', ''findLastIndex'', ''lastIndexOf'', ''pop'', ''push'', ''reverse'',
      ''shift'', ''unshift'', ''slice'', ''sort'', ''splice'', ''includes'', ''indexOf'',
      ''join'', ''keys'', ''entries'', ''values'', ''forEach'', ''filter'', ''flat'',
      ''flatMap'', ''map'', ''every'', ''some'', ''reduce'', ''reduceRight'',
      ''toLocaleString'', ''toString'']"

definition date_prototype_keys :: "string list" where
  "date_prototype_keys =
     [''constructor'', ''toString'', ''toDateString'', ''toTimeString'', ''toISOString'',
      ''toUTCString'', ''toGMTString'', ''getDate'', ''setDate'', ''getDay'',
      ''getFullYear'', ''setFullYear'', ''getHours'', ''setHours'', ''getMilliseconds'',
      ''setMilliseconds'', ''getMinutes'', ''setMinutes'', ''getMonth'', ''setMonth'',
      ''getSeconds'', ''setSeconds'', ''getTime'', ''setTime'', ''getTimezoneOffset'',
      ''getUTCDate'', ''setUTCDate'', ''getUTCDay'', ''getUTCFullYear'', ''setUTCFullYear'',
      ''getUTCHours'', ''setUTCHours'', ''getUTCMilliseconds'', ''setUTCMilliseconds'',
      ''getUTCMinutes'', ''setUTCMinutes'', ''getUTCMonth'', ''setUTCMonth'',
      ''getUTCSeconds'', ''setUTCSeconds'', ''valueOf'', ''getYear'', ''setYear'', ''toJSON'',
      ''toLocaleString'', ''toLocaleDateString'', ''toLocaleTimeString'']"

fun prototype_keys :: "kind \<Rightarrow> string list" where
  "prototype_keys KObject = object_prototype_keys"
| "prototype_keys KString = string_prototype_keys"
| "prototype_keys KNumber = number_prototype_keys"
| "prototype_keys KBoolean = boolean_prototype_keys"
| "prototype_keys KArray = array_prototype_keys"
| "prototype_keys KDate = date_prototype_keys"

fun constructor_name :: "kind \<Rightarrow> string" where
  "constructor_name KObject = ''Object''"
| "constructor_name KString = ''String''"
| "constructor_name KNumber = ''Number''"
| "constructor_name KBoolean = ''Boolean''"
| "constructor_name KArray = ''Array''"
| "constructor_name KDate = ''Date''"

definition member_name :: "kind \<Rightarrow> string \<Rightarrow> string" where
  "member_name kd k =
     (if k = ''constructor'' then constructor_name kd
      else if k = ''trimLeft'' then ''trimStart''
      else if k = ''trimRight'' then ''trimEnd''
      else if k = ''toGMTString'' then ''toUTCString''
      else k)"

subsection \<open>The string form of a value\<close>

text \<open>
  \<^verbatim>\<open>ToString\<close>. A number is printed in decimal digits. An array is its elements joined by
  commas, with \<^verbatim>\<open>null\<close> and \<^verbatim>\<open>undefined\<close> elements left empty. A plain object is converted
  by its method \<^verbatim>\<open>toString\<close>: the inherited one yields \<^verbatim>\<open>[object Object]\<close>; an own property
  \<^verbatim>\<open>toString\<close> holds data, which cannot be called, and then neither \<^verbatim>\<open>valueOf\<close> (own, not
  callable, or inherited, which returns the object) gives a primitive value: the
  conversion throws. A native function prints as the host prints it, and of the
  prototype objects \<^verbatim>\<open>String.prototype\<close> is an empty string object, \<^verbatim>\<open>Number.prototype\<close> a
  number object of value 0, \<^verbatim>\<open>Boolean.prototype\<close> a boolean object of value
  \<^verbatim>\<open>false\<close>, \<^verbatim>\<open>Array.prototype\<close> an empty array, and \<^verbatim>\<open>Date.prototype\<close> no date, so that its
  \<^verbatim>\<open>toString\<close> throws.
\<close>

fun digits :: "nat \<Rightarrow> string" where
  "digits n =
     (if n < 10 then [''0123456789'' ! n] else digits (n div 10) @ [''0123456789'' ! (n mod 10)])"

definition show_int :: "int \<Rightarrow> string" where
  "show_int i = (if i < 0 then CHR ''-'' # digits (nat (- i)) else digits (nat i))"

fun join :: "string \<Rightarrow> (error + string) list \<Rightarrow> error + string" where
  "join sep [] = Inr []"
| "join sep [x] = x"
| "join sep (x # y # ys) = cat x (cat (Inr sep) (join sep (y # ys)))"

fun to_string :: "host \<Rightarrow> jsval \<Rightarrow> error + string" where
  "to_string h VUndef = Inr ''undefined''"
| "to_string h VNull = Inr ''null''"
| "to_string h (VBool b) = Inr (if b then ''true'' else ''false'')"
| "to_string h (VNum n) = Inr (show_int (sint n))"
| "to_string h (VStr s) = Inr s"
| "to_string h (VDate t) = Inr (date_text h t)"
| "to_string h (VArr xs) =
     join '','' (map (\<lambda>x. if x = VUndef \<or> x = VNull then Inr [] else to_string h x) xs)"
| "to_string h (VObj ob) =
     (if own ob ''toString'' = None then Inr ''[object Object]'' else Inl TypeError)"

fun any_to_string :: "host \<Rightarrow> jsany \<Rightarrow> error + string" where
  "any_to_string h (Data v) = to_string h v"
| "any_to_string h (Native f) = Inr (''function '' @ f @ ''() { [native code] }'')"
| "any_to_string h (Proto KObject) = Inr ''[object Object]''"
| "any_to_string h (Proto KString) = Inr []"
| "any_to_string h (Proto KNumber) = Inr ''0''"
| "any_to_string h (Proto KBoolean) = Inr ''false''"
| "any_to_string h (Proto KArray) = Inr []"
| "any_to_string h (Proto KDate) = Inl TypeError"

text \<open>\<^verbatim>\<open>v || ''\<close> as the text that comes of a callback returning it.\<close>

definition or_empty :: "host \<Rightarrow> jsany \<Rightarrow> error + string" where
  "or_empty h v = (if truthy v then any_to_string h v else Inr [])"

subsection \<open>Variable substitution\<close>

text \<open>
  \<^verbatim>\<open>result.replace(/\{\{(\w+)\}\}/g, (match, key) => data[key] || '')\<close>
\<close>

definition match_var :: "string \<Rightarrow> (string \<times> string) option" where
  "match_var s =
     Option.bind (lit ''{{'' s) (\<lambda>r1.
     Option.bind (word r1) (\<lambda>(key, r2).
     Option.bind (lit ''}}'' r2) (\<lambda>r3. Some (key, r3))))"

lemma lit_length: "lit p s = Some r \<Longrightarrow> length s = length p + length r"
proof -
  assume "lit p s = Some r"
  then have t: "take (length p) s = p" and r: "r = drop (length p) s"
    by (auto simp: lit_def split: if_splits)
  have "length (take (length p) s) + length (drop (length p) s) = length s"
    by (simp only: length_append [symmetric] append_take_drop_id)
  with t r show ?thesis
    by simp
qed

lemma spaces0_length: "spaces0 s = Some r \<Longrightarrow> length r \<le> length s"
  by (auto simp: spaces0_def length_dropWhile_le)

lemma spaces1_length: "spaces1 s = Some r \<Longrightarrow> length r \<le> length s"
  by (auto simp: spaces1_def length_dropWhile_le split: if_splits)

lemma word_length: "word s = Some (w, r) \<Longrightarrow> length r \<le> length s"
  by (auto simp: word_def length_dropWhile_le split: if_splits)

lemma match_var_length: "match_var s = Some (key, r) \<Longrightarrow> length r < length s"
  by (auto simp: match_var_def Option.bind_eq_Some_conv dest!: lit_length word_length)

function subst_vars :: "host \<Rightarrow> obj \<Rightarrow> string \<Rightarrow> error + string" where
  "subst_vars h data [] = Inr []"
| "subst_vars h data (c # cs) =
     (case match_var (c # cs) of
        Some (key, rest) \<Rightarrow> cat (or_empty h (js_get data key)) (subst_vars h data rest)
      | None \<Rightarrow> cat (Inr [c]) (subst_vars h data cs))"
  by pat_completeness auto
termination
  by (relation "measure (\<lambda>(h, data, s). length s)") (auto dest: match_var_length)

subsection \<open>Conditional blocks\<close>

text \<open>
  \<^verbatim>\<open>result.replace(/\{%\s*if\s+(\w+)\s*%\}[\s\S]*?\{\%\s*endif\s*%\}/g, (match, condition) => ...)\<close>.
  The lazy \<^verbatim>\<open>[\s\S]*?\<close> ends at the first position behind the opening tag where the
  closing tag matches (\<open>find_close\<close>); without a closing tag the expression does not
  match at this position. The callback gets the whole matched text; when the condition
  is truthy it removes the first opening tag and then the first closing tag from it
  with two non-global replaces (\<open>remove_first\<close>), else it returns the empty string.
\<close>

definition match_if_open :: "string \<Rightarrow> (string \<times> string) option" where
  "match_if_open s =
     Option.bind (lit ''{%'' s) (\<lambda>r1.
     Option.bind (spaces0 r1) (\<lambda>r2.
     Option.bind (lit ''if'' r2) (\<lambda>r3.
     Option.bind (spaces1 r3) (\<lambda>r4.
     Option.bind (word r4) (\<lambda>(condition, r5).
     Option.bind (spaces0 r5) (\<lambda>r6.
     Option.bind (lit ''%}'' r6) (\<lambda>r7. Some (condition, r7))))))))"

text \<open>The closing tag \<^verbatim>\<open>\{%\s*endif\s*%\}\<close> or \<^verbatim>\<open>\{%\s*endfor\s*%\}\<close>.\<close>

definition match_close :: "string \<Rightarrow> string \<Rightarrow> string option" where
  "match_close kw s =
     Option.bind (lit ''{%'' s) (\<lambda>r1.
     Option.bind (spaces0 r1) (\<lambda>r2.
     Option.bind (lit kw r2) (\<lambda>r3.
     Option.bind (spaces0 r3) (\<lambda>r4. lit ''%}'' r4))))"

fun find_close :: "string \<Rightarrow> string \<Rightarrow> (string \<times> string) option" where
  "find_close kw [] = map_option (\<lambda>after. ([], after)) (match_close kw [])"
| "find_close kw (c # cs) =
     (case match_close kw (c # cs) of
        Some after \<Rightarrow> Some ([], after)
      | None \<Rightarrow> map_option (\<lambda>(inner, after). (c # inner, after)) (find_close kw cs))"

fun remove_first :: "(string \<Rightarrow> string option) \<Rightarrow> string \<Rightarrow> string" where
  "remove_first m [] = (case m [] of Some rest \<Rightarrow> rest | None \<Rightarrow> [])"
| "remove_first m (c # cs) =
     (case m (c # cs) of Some rest \<Rightarrow> rest | None \<Rightarrow> c # remove_first m cs)"

definition match_if_block :: "string \<Rightarrow> (string \<times> string \<times> string) option" where
  "match_if_block s =
     Option.bind (match_if_open s) (\<lambda>(condition, r).
     Option.bind (find_close ''endif'' r) (\<lambda>(inner, after).
       Some (condition, take (length s - length after) s, after)))"

definition if_callback :: "obj \<Rightarrow> string \<Rightarrow> string \<Rightarrow> string" where
  "if_callback data matched condition =
     (if truthy (js_get data condition)
      then remove_first (match_close ''endif'')
             (remove_first (\<lambda>s. map_option snd (match_if_open s)) matched)
      else [])"

lemma match_close_length: "match_close kw s = Some r \<Longrightarrow> length r < length s"
  by (auto simp: match_close_def Option.bind_eq_Some_conv
      dest!: lit_length spaces0_length)

lemma find_close_length: "find_close kw s = Some (inner, r) \<Longrightarrow> length r < length s"
proof (induction s arbitrary: inner)
  case Nil
  then show ?case by (auto dest: match_close_length)
next
  case (Cons c cs)
  then show ?case
    by (fastforce split: option.splits dest: match_close_length)
qed

lemma match_if_open_length: "match_if_open s = Some (k, r) \<Longrightarrow> length r < length s"
  by (auto simp: match_if_open_def Option.bind_eq_Some_conv
      dest!: lit_length spaces0_length spaces1_length word_length)

lemma match_if_block_length:
  "match_if_block s = Some (k, m, r) \<Longrightarrow> length r < length s"
  by (auto simp: match_if_block_def Option.bind_eq_Some_conv
      dest!: match_if_open_length find_close_length)

function subst_ifs :: "obj \<Rightarrow> string \<Rightarrow> string" where
  "subst_ifs data [] = []"
| "subst_ifs data (c # cs) =
     (case match_if_block (c # cs) of
        Some (condition, matched, rest) \<Rightarrow> if_callback data matched condition @ subst_ifs data rest
      | None \<Rightarrow> c # subst_ifs data cs)"
  by pat_completeness auto
termination
  by (relation "measure (\<lambda>(data, s). length s)") (auto dest: match_if_block_length)

subsection \<open>Loop blocks\<close>

text \<open>
  \<^verbatim>\<open>result.replace(/\{%\s*for\s+(\w+)\s+in\s+(\w+)\s*%\}([\s\S]*?)\{%\s*endfor\s*%\}/g,\<close>
  \<^verbatim>\<open>  (match, itemVar, arrayVar, content) => ...)\<close>. The callback takes
  \<^verbatim>\<open>data[arrayVar] || []\<close>, maps every element to the content with the tokens
  \<^verbatim>\<open>{{itemVar.prop}}\<close> replaced by \<^verbatim>\<open>item[prop] || ''\<close>, and joins the results.
\<close>

definition match_for_open :: "string \<Rightarrow> (string \<times> string \<times> string) option" where
  "match_for_open s =
     Option.bind (lit ''{%'' s) (\<lambda>r1.
     Option.bind (spaces0 r1) (\<lambda>r2.
     Option.bind (lit ''for'' r2) (\<lambda>r3.
     Option.bind (spaces1 r3) (\<lambda>r4.
     Option.bind (word r4) (\<lambda>(itemVar, r5).
     Option.bind (spaces1 r5) (\<lambda>r6.
     Option.bind (lit ''in'' r6) (\<lambda>r7.
     Option.bind (spaces1 r7) (\<lambda>r8.
     Option.bind (word r8) (\<lambda>(arrayVar, r9).
     Option.bind (spaces0 r9) (\<lambda>r10.
     Option.bind (lit ''%}'' r10) (\<lambda>r11. Some (itemVar, arrayVar, r11))))))))))))"

definition match_for_block :: "string \<Rightarrow> (string \<times> string \<times> string \<times> string) option" where
  "match_for_block s =
     Option.bind (match_for_open s) (\<lambda>(itemVar, arrayVar, r).
     Option.bind (find_close ''endfor'' r) (\<lambda>(content, after).
       Some (itemVar, arrayVar, content, after)))"

text \<open>\<^verbatim>\<open>new RegExp(`\\{\\{${itemVar}\\.(\\w+)\\}\\}`, 'g')\<close>\<close>

definition match_item_var :: "string \<Rightarrow> string \<Rightarrow> (string \<times> string) option" where
  "match_item_var itemVar s =
     Option.bind (lit ''{{'' s) (\<lambda>r1.
     Option.bind (lit itemVar r1) (\<lambda>r2.
     Option.bind (lit ''.'' r2) (\<lambda>r3.
     Option.bind (word r3) (\<lambda>(prop, r4).
     Option.bind (lit ''}}'' r4) (\<lambda>r5. Some (prop, r5))))))"

text \<open>
  \<^verbatim>\<open>item[prop]\<close>, where the property name is a word. It throws when the element is \<^verbatim>\<open>null\<close>
  or \<^verbatim>\<open>undefined\<close>. A plain object is read as above. A string and an array have the own
  properties \<^verbatim>\<open>length\<close> and one for each index, written in decimal digits without a
  leading zero (\<open>index_key\<close>): a character of the string, an element of the array. Every
  other name goes to the prototype of the element's kind (\<open>prototype_keys\<close>, \<open>builtin\<close>) and
  from there to \<^verbatim>\<open>Object.prototype\<close>, where \<^verbatim>\<open>__proto__\<close> yields the prototype of the
  element's kind. Numbers, booleans and dates have no own property with a word as key.
\<close>

definition digit_value :: "char \<Rightarrow> nat" where
  "digit_value c = length (takeWhile (\<lambda>x. x \<noteq> c) ''0123456789'')"

definition parse_nat :: "string \<Rightarrow> nat" where
  "parse_nat k = fold (\<lambda>c n. 10 * n + digit_value c) k 0"

definition index_key :: "string \<Rightarrow> nat option" where
  "index_key k =
     (if k \<noteq> [] \<and> list_all (\<lambda>c. c \<in> set ''0123456789'') k \<and> digits (parse_nat k) = k
      then Some (parse_nat k) else None)"

definition proto_get :: "host \<Rightarrow> kind \<Rightarrow> string \<Rightarrow> jsany" where
  "proto_get h kd k =
     (if k \<in> set (prototype_keys kd) then Native (member_name kd k)
      else case builtin h kd k of
             Some f \<Rightarrow> Native f
           | None \<Rightarrow>
               if k = ''__proto__'' then Proto kd
               else if k \<in> set object_prototype_keys then Native (native_name k)
               else Data VUndef)"

fun get_prop :: "host \<Rightarrow> jsval \<Rightarrow> string \<Rightarrow> error + jsany" where
  "get_prop h VUndef k = Inl TypeError"
| "get_prop h VNull k = Inl TypeError"
| "get_prop h (VObj ob) k = Inr (js_get ob k)"
| "get_prop h (VStr s) k =
     Inr (if k = ''length'' then Data (VNum (of_nat (length s)))
          else case index_key k of
                 Some n \<Rightarrow> if n < length s then Data (VStr [s ! n]) else proto_get h KString k
               | None \<Rightarrow> proto_get h KString k)"
| "get_prop h (VArr xs) k =
     Inr (if k = ''length'' then Data (VNum (of_nat (length xs)))
          else case index_key k of
                 Some n \<Rightarrow> if n < length xs then Data (xs ! n) else proto_get h KArray k
               | None \<Rightarrow> proto_get h KArray k)"
| "get_prop h (VBool b) k = Inr (proto_get h KBoolean k)"
| "get_prop h (VNum n) k = Inr (proto_get h KNumber k)"
| "get_prop h (VDate t) k = Inr (proto_get h KDate k)"

text \<open>\<^verbatim>\<open>(m, prop) => item[prop] || ''\<close>\<close>

definition item_callback :: "host \<Rightarrow> jsval \<Rightarrow> string \<Rightarrow> error + string" where
  "item_callback h item pr =
     (case get_prop h item pr of Inl e \<Rightarrow> Inl e | Inr v \<Rightarrow> or_empty h v)"

lemma match_item_var_length: "match_item_var v s = Some (p, r) \<Longrightarrow> length r < length s"
  by (auto simp: match_item_var_def Option.bind_eq_Some_conv dest!: lit_length word_length)

function subst_item :: "host \<Rightarrow> string \<Rightarrow> jsval \<Rightarrow> string \<Rightarrow> error + string" where
  "subst_item h itemVar item [] = Inr []"
| "subst_item h itemVar item (c # cs) =
     (case match_item_var itemVar (c # cs) of
        Some (pr, rest) \<Rightarrow> cat (item_callback h item pr) (subst_item h itemVar item rest)
      | None \<Rightarrow> cat (Inr [c]) (subst_item h itemVar item cs))"
  by pat_completeness auto
termination
  by (relation "measure (\<lambda>(h, v, item, s). length s)") (auto dest: match_item_var_length)

text \<open>
  \<^verbatim>\<open>array.map(f).join('')\<close>: the callback runs for the elements in their order, and the
  first one that throws ends the call.
\<close>

fun map_join :: "('a \<Rightarrow> error + string) \<Rightarrow> 'a list \<Rightarrow> error + string" where
  "map_join f [] = Inr []"
| "map_join f (x # xs) = cat (f x) (map_join f xs)"

text \<open>
  Of all the values only an array has a method \<^verbatim>\<open>map\<close>: for any other truthy value
  (a string, a number, a date, a plain object, an inherited function)
  \<^verbatim>\<open>array.map\<close> is not a function and the call throws.
\<close>

definition for_callback ::
  "host \<Rightarrow> obj \<Rightarrow> string \<Rightarrow> string \<Rightarrow> string \<Rightarrow> error + string" where
  "for_callback h data itemVar arrayVar content =
     (case (if truthy (js_get data arrayVar) then js_get data arrayVar else Data (VArr [])) of
        Data (VArr items) \<Rightarrow> map_join (\<lambda>item. subst_item h itemVar item content) items
      | _ \<Rightarrow> Inl TypeError)"

lemma match_for_open_length: "match_for_open s = Some (i, a, r) \<Longrightarrow> length r < length s"
  by (auto simp: match_for_open_def Option.bind_eq_Some_conv
      dest!: lit_length spaces0_length spaces1_length word_length)

lemma match_for_block_length:
  "match_for_block s = Some (i, a, c, r) \<Longrightarrow> length r < length s"
  by (auto simp: match_for_block_def Option.bind_eq_Some_conv
      dest!: match_for_open_length find_close_length)

function subst_fors :: "host \<Rightarrow> obj \<Rightarrow> string \<Rightarrow> error + string" where
  "subst_fors h data [] = Inr []"
| "subst_fors h data (c # cs) =
     (case match_for_block (c # cs) of
        Some (itemVar, arrayVar, content, rest) \<Rightarrow>
          cat (for_callback h data itemVar arrayVar content) (subst_fors h data rest)
      | None \<Rightarrow> cat (Inr [c]) (subst_fors h data cs))"
  by pat_completeness auto
termination
  by (relation "measure (\<lambda>(h, data, s). length s)") (auto dest: match_for_block_length)

subsection \<open>render\<close>

text \<open>The three passes in their order; a pass that throws ends the call.\<close>

definition render :: "host \<Rightarrow> string \<Rightarrow> obj \<Rightarrow> error + string" where
  "render h template data =
     (case subst_vars h data template of
        Inl e \<Rightarrow> Inl e
      | Inr result1 \<Rightarrow> subst_fors h data (subst_ifs data result1))"

subsection \<open>Notions used to state the properties of the passes\<close>

text \<open>
  \<open>no_match m s\<close>: the matcher \<open>m\<close> matches at no position of \<open>s\<close>.
  \<open>blocks_closed s\<close>: every loop block that the scan of the loop pass opens in \<open>s\<close> is
  closed in \<open>s\<close>, so that the scan arrives at the end of \<open>s\<close> outside of a block.
  \<open>var_tail\<close> and \<open>item_tail\<close> are what the two token expressions match behind the
  opening braces.
\<close>

fun no_match :: "(string \<Rightarrow> 'a option) \<Rightarrow> string \<Rightarrow> bool" where
  "no_match m [] = True"
| "no_match m (c # cs) = (m (c # cs) = None \<and> no_match m cs)"

function blocks_closed :: "string \<Rightarrow> bool" where
  "blocks_closed [] = True"
| "blocks_closed (c # cs) =
     (case match_for_open (c # cs) of
        None \<Rightarrow> blocks_closed cs
      | Some (itemVar, arrayVar, r) \<Rightarrow>
          (case find_close ''endfor'' r of
             None \<Rightarrow> False
           | Some (content, rest) \<Rightarrow> blocks_closed rest))"
  by pat_completeness auto
termination
  by (relation "measure length")
    (auto dest!: match_for_open_length find_close_length)

definition var_tail :: "string \<Rightarrow> (string \<times> string) option" where
  "var_tail r =
     Option.bind (word r) (\<lambda>(key, r2).
     Option.bind (lit ''}}'' r2) (\<lambda>r3. Some (key, r3)))"

definition item_tail :: "string \<Rightarrow> string \<Rightarrow> (string \<times> string) option" where
  "item_tail itemVar r1 =
     Option.bind (lit itemVar r1) (\<lambda>r2.
     Option.bind (lit ''.'' r2) (\<lambda>r3.
     Option.bind (word r3) (\<lambda>(pr, r4).
     Option.bind (lit ''}}'' r4) (\<lambda>r5. Some (pr, r5)))))"

section \<open>SimpleServer\<close>

text \<open>
  \<^verbatim>\<open>routes: Map<string, Map<string, handler>>\<close> maps a method to a map from the exact path
  to the handler; \<^verbatim>\<open>middleware\<close> is the list of registered stages. A handler is any value
  \<open>'h\<close> that names the registered function.

  A middleware is a function \<^verbatim>\<open>(req, res, next) => void\<close>. What matters to the dispatcher is
  the order of its work and of its calls of \<^verbatim>\<open>next\<close>: a stage is modelled by the list of
  its actions, \<open>Work l\<close> for a piece of its own work (named \<open>l\<close>) and \<open>Next\<close> for a call
  of the continuation. The stages run synchronously.
\<close>

datatype 'l action = Work 'l | Next

record ('l, 'h) server =
  routes :: "(string \<times> (string \<times> 'h) list) list"
  middleware :: "'l action list list"

definition new_server :: "('l, 'h) server" where
  "new_server = \<lparr>routes = [], middleware = []\<rparr>"

text \<open>
  \<^verbatim>\<open>get(path, handler)\<close>, \<^verbatim>\<open>post(path, handler)\<close> and \<^verbatim>\<open>use(middleware)\<close> of the server.
\<close>

definition add_route :: "string \<Rightarrow> string \<Rightarrow> 'h \<Rightarrow> ('l, 'h) server \<Rightarrow> ('l, 'h) server" where
  "add_route method path handler srv =
     (let rs = (case map_of (routes srv) method of
                  None \<Rightarrow> AList.update method [] (routes srv)
                | Some _ \<Rightarrow> routes srv);
          methodRoutes = (case map_of rs method of Some m \<Rightarrow> m | None \<Rightarrow> [])
      in srv\<lparr>routes := AList.update method (AList.update path handler methodRoutes) rs\<rparr>)"

definition server_get :: "string \<Rightarrow> 'h \<Rightarrow> ('l, 'h) server \<Rightarrow> ('l, 'h) server" where
  "server_get path handler srv = add_route ''GET'' path handler srv"

definition server_post :: "string \<Rightarrow> 'h \<Rightarrow> ('l, 'h) server \<Rightarrow> ('l, 'h) server" where
  "server_post path handler srv = add_route ''POST'' path handler srv"

definition server_use :: "'l action list \<Rightarrow> ('l, 'h) server \<Rightarrow> ('l, 'h) server" where
  "server_use mw srv = srv\<lparr>middleware := middleware srv @ [mw]\<rparr>"

text \<open>
  \<^verbatim>\<open>routeRequest\<close> looks the method and then the exact path up; it invokes the handler
  found, or writes the dispatcher's own 404 page, which quotes the path.
\<close>

datatype 'h outcome = Invoke 'h | NotFound404 string

definition routeRequest :: "('l, 'h) server \<Rightarrow> string \<Rightarrow> string \<Rightarrow> 'h outcome" where
  "routeRequest srv method path =
     (case map_of (routes srv) method of
        Some methodRoutes \<Rightarrow>
          (case map_of methodRoutes path of
             Some handler \<Rightarrow> Invoke handler
           | None \<Rightarrow> NotFound404 path)
      | None \<Rightarrow> NotFound404 path)"

text \<open>
  \<^verbatim>\<open>handleRequest\<close>. The closure \<^verbatim>\<open>next\<close> shares the variable \<^verbatim>\<open>middlewareIndex\<close> with all
  its calls: the state of a request is that index and the trace of what has happened,
  \<open>Did l\<close> for a piece of work of a stage and \<open>Routed r\<close> for a call of \<^verbatim>\<open>routeRequest\<close>
  with outcome \<open>r\<close>. \<open>run_next\<close> is a call of \<^verbatim>\<open>next()\<close> and \<open>run_body\<close> runs the rest of a
  stage; a stage that calls \<^verbatim>\<open>next\<close> continues when that call returns.
\<close>

datatype ('l, 'o) event = Did 'l | Routed 'o

function run_next ::
    "'l action list list \<Rightarrow> 'o \<Rightarrow> nat \<times> ('l, 'o) event list \<Rightarrow> nat \<times> ('l, 'o) event list"
  and run_body ::
    "'l action list list \<Rightarrow> 'o \<Rightarrow> 'l action list \<Rightarrow> nat \<times> ('l, 'o) event list
      \<Rightarrow> nat \<times> ('l, 'o) event list"
where
  "run_next mws r (i, tr) =
     (if i < length mws then run_body mws r (mws ! i) (Suc i, tr) else (i, tr @ [Routed r]))"
| "run_body mws r [] st = st"
| "run_body mws r (Work l # as) (i, tr) = run_body mws r as (i, tr @ [Did l])"
| "run_body mws r (Next # as) st = run_body mws r as (run_next mws r st)"
  by pat_completeness auto

text \<open>The index never goes back; with this, every call of \<^verbatim>\<open>next\<close> returns.\<close>

lemma run_index_mono:
  "run_next_run_body_dom (Inl (mws, r, st)) \<Longrightarrow> fst st \<le> fst (run_next mws r st)"
  "run_next_run_body_dom (Inr (mws, r, as, st)) \<Longrightarrow> fst st \<le> fst (run_body mws r as st)"
proof (induction mws r st and mws r as st rule: run_next_run_body.pinduct)
  case (1 mws r i tr)
  then show ?case
    by (auto simp: run_next.psimps)
next
  case (2 mws r st)
  then show ?case
    by (simp add: run_body.psimps)
next
  case (3 mws r l as i tr)
  then show ?case
    by (simp add: run_body.psimps)
next
  case (4 mws r as st)
  then show ?case
    by (auto simp: run_body.psimps intro: order_trans)
qed

termination run_next
proof (relation "measures
    [\<lambda>x. case x of Inl (mws, r, st) \<Rightarrow> length mws - fst st
               | Inr (mws, r, as, st) \<Rightarrow> length mws - fst st,
     \<lambda>x. case x of Inl _ \<Rightarrow> 0 | Inr _ \<Rightarrow> 1,
     \<lambda>x. case x of Inl _ \<Rightarrow> 0 | Inr (mws, r, as, st) \<Rightarrow> length as]", goal_cases)
  case 1
  show ?case by simp
next
  case (2 mws r i tr)
  then show ?case by auto
next
  case (3 mws r l as i tr)
  then show ?case by simp
next
  case (4 mws r as st)
  then show ?case by simp
next
  case (5 mws r as st)
  from run_index_mono(1) [OF 5] show ?case
    by auto
qed

declare run_next.simps [simp del]

text \<open>
  \<^verbatim>\<open>req.method || 'GET'\<close>, \<^verbatim>\<open>req.url || '/'\<close> (a missing value is the empty string) and
  \<^verbatim>\<open>url.split('?')[0]\<close>. The result is the trace of the request.
\<close>

definition request_method :: "string \<Rightarrow> string" where
  "request_method req_method = (if req_method = [] then ''GET'' else req_method)"

definition request_path :: "string \<Rightarrow> string" where
  "request_path req_url =
     takeWhile (\<lambda>c. c \<noteq> CHR ''?'') (if req_url = [] then ''/'' else req_url)"

definition handleRequest ::
  "('l, 'h) server \<Rightarrow> string \<Rightarrow> string \<Rightarrow> ('l, 'h outcome) event list" where
  "handleRequest srv req_method req_url =
     (let method = request_method req_method;
          path = request_path req_url
      in if length (middleware srv) > 0
         then snd (run_next (middleware srv) (routeRequest srv method path) (0, []))
         else [Routed (routeRequest srv method path)])"

text \<open>
  A stage that does the work \<open>pre\<close>, calls its continuation once and then does the work
  \<open>post\<close>; and a stage that only works and never calls its continuation.
\<close>

definition calls_once :: "'l list \<times> 'l list \<Rightarrow> 'l action list" where
  "calls_once st = map Work (fst st) @ Next # map Work (snd st)"

definition never_calls :: "'l list \<Rightarrow> 'l action list" where
  "never_calls ws = map Work ws"

section \<open>DocumentationService\<close>

text \<open>
  \<^verbatim>\<open>setupDatabase\<close> inserts seven pages and two examples. The page texts and the example
  code are long literals produced by \<^verbatim>\<open>generate...Content()\<close>; they are parameters here
  (\<open>texts\<close>). \<open>env k\<close> is what the environment gives the \<open>k\<close>-th insert: the UUID and the
  two clock readings. (The service also keeps each inserted record in a map of its own,
  which nothing reads.)
\<close>

record texts =
  gettingStartedContent :: string
  coreContent :: string
  enterpriseContent :: string
  nextGenContent :: string
  futuristicContent :: string
  apiContent :: string
  examplesContent :: string
  serverSetupCode :: string
  webAICode :: string

definition page_data ::
  "string \<Rightarrow> string \<Rightarrow> string \<Rightarrow> string \<Rightarrow> 54 word \<Rightarrow> string list \<Rightarrow> obj" where
  "page_data title slug content category ord tags =
     [(''title'', VStr title), (''slug'', VStr slug), (''content'', VStr content),
      (''category'', VStr category), (''order'', VNum ord), (''tags'', VArr (map VStr tags))]"

definition pages :: "texts \<Rightarrow> obj list" where
  "pages tx =
     [page_data ''Getting Started'' ''getting-started'' (gettingStartedContent tx)
        ''getting-started'' 1 [''introduction'', ''setup'', ''quick-start''],
      page_data ''Core Framework'' ''core'' (coreContent tx) ''core'' 2
        [''server'', ''routing'', ''database'', ''auth'', ''templating'', ''testing''],
      page_data ''Enterprise Features'' ''enterprise'' (enterpriseContent tx) ''enterprise'' 3
        [''graphql'', ''microservices'', ''api-docs'', ''file-upload'', ''email'',
         ''notifications''],
      page_data ''Next-Generation Features'' ''nextgen'' (nextGenContent tx) ''nextgen'' 4
        [''ai'', ''blockchain'', ''collaboration'', ''workflow''],
      page_data ''Futuristic Features'' ''futuristic'' (futuristicContent tx) ''futuristic'' 5
        [''pwa'', ''voice'', ''webassembly'', ''webrtc''],
      page_data ''API Reference'' ''api'' (apiContent tx) ''api'' 6
        [''api'', ''reference'', ''endpoints'', ''types''],
      page_data ''Examples & Tutorials'' ''examples'' (examplesContent tx) ''examples'' 7
        [''examples'', ''tutorials'', ''guides'', ''code'']]"

definition examples :: "texts \<Rightarrow> obj list" where
  "examples tx =
     [[(''title'', VStr ''Basic Server Setup''),
       (''description'', VStr ''Create a simple HTTP server with Synapse''),
       (''code'', VStr (serverSetupCode tx)), (''language'', VStr ''typescript''),
       (''category'', VStr ''Core''), (''package'', VStr ''@synapse/core''),
       (''isRunnable'', VBool True),
       (''dependencies'', VArr [VStr ''@synapse/core'', VStr ''@synapse/routing''])],
      [(''title'', VStr ''AI Integration with Web AI''),
       (''description'', VStr ''Use Google Web AI for browser-based AI generation''),
       (''code'', VStr (webAICode tx)), (''language'', VStr ''typescript''),
       (''category'', VStr ''AI''), (''package'', VStr ''@synapse/ai''),
       (''isRunnable'', VBool True), (''dependencies'', VArr [VStr ''@synapse/ai''])]]"

text \<open>\<^verbatim>\<open>for (const r of records) this.database.insert(table, r)\<close>, from the \<open>k\<close>-th insert on.\<close>

fun insert_all ::
  "(nat \<Rightarrow> string \<times> nat \<times> nat) \<Rightarrow> nat \<Rightarrow> string \<Rightarrow> obj list \<Rightarrow> database \<Rightarrow> database" where
  "insert_all env k tableName [] data = data"
| "insert_all env k tableName (r # rs) data =
     (case env k of
        (uuid, t1, t2) \<Rightarrow>
          insert_all env (Suc k) tableName rs (snd (insert_db data tableName r uuid t1 t2)))"

definition setupDatabase :: "(nat \<Rightarrow> string \<times> nat \<times> nat) \<Rightarrow> texts \<Rightarrow> database \<Rightarrow> database" where
  "setupDatabase env tx data =
     insert_all env (length (pages tx)) ''documentation_examples'' (examples tx)
       (insert_all env 0 ''documentation_pages'' (pages tx) data)"

text \<open>The five handlers that \<^verbatim>\<open>setupRoutes\<close> registers, in its order.\<close>

datatype handler = Home | Slug | Examples | Api | Search

definition setupRoutes :: "('l, handler) server \<Rightarrow> ('l, handler) server" where
  "setupRoutes srv =
     server_get ''/api/search'' Search
       (server_get ''/api'' Api
         (server_get ''/examples'' Examples
           (server_get ''/:slug'' Slug
             (server_get ''/'' Home srv))))"

text \<open>
  The handler registered under \<^verbatim>\<open>'/:slug'\<close> starts with
  \<^verbatim>\<open>const slug = req.url?.split('/')[1] || ''\<close> and
  \<^verbatim>\<open>const pages = this.database.find('documentation_pages', { slug, isPublished: true })\<close>;
  it answers with the service's 404 page when \<^verbatim>\<open>pages\<close> is empty and renders
  \<^verbatim>\<open>pages[0]\<close> otherwise.
\<close>

fun split_on :: "char \<Rightarrow> string \<Rightarrow> string list" where
  "split_on sep [] = [[]]"
| "split_on sep (c # cs) =
     (if c = sep then [] # split_on sep cs
      else (case split_on sep cs of p # ps \<Rightarrow> (c # p) # ps | [] \<Rightarrow> [[c]]))"

definition slug_of_url :: "string \<Rightarrow> string" where
  "slug_of_url url = (case split_on CHR ''/'' url of _ # s # _ \<Rightarrow> s | _ \<Rightarrow> [])"

definition slug_pages :: "database \<Rightarrow> string \<Rightarrow> obj list" where
  "slug_pages data url =
     find_db data ''documentation_pages''
       (Some [(''slug'', VStr (slug_of_url url)), (''isPublished'', VBool True)])"

text \<open>
  The search handler. \<open>query\<close> is \<^verbatim>\<open>new URL(req.url, ...).searchParams.get('q') || ''\<close>, the
  decoded value of the parameter \<^verbatim>\<open>q\<close>. \<^verbatim>\<open>p.title.toLowerCase()\<close> throws when the field is
  not a string. The handler answers \<^verbatim>\<open>{ results, query }\<close>.
\<close>

definition toLowerCase :: "string \<Rightarrow> string" where
  "toLowerCase s =
     map (\<lambda>c. case map_of (zip ''ABCDEFGHIJKLMNOPQRSTUVWXYZ'' ''abcdefghijklmnopqrstuvwxyz'') c of
                 Some l \<Rightarrow> l
               | None \<Rightarrow> c) s"

fun includes_str :: "string \<Rightarrow> string \<Rightarrow> bool" where
  "includes_str [] needle = (needle = [])"
| "includes_str (c # cs) needle =
     (if take (length needle) (c # cs) = needle then True else includes_str cs needle)"

definition lower_field :: "obj \<Rightarrow> string \<Rightarrow> error + string" where
  "lower_field ob k =
     (case js_get ob k of Data (VStr s) \<Rightarrow> Inr (toLowerCase s) | _ \<Rightarrow> Inl TypeError)"

text \<open>\<^verbatim>\<open>a.f1.toLowerCase().includes(q) || a.f2.toLowerCase().includes(q)\<close>\<close>

definition matches :: "string \<Rightarrow> string \<Rightarrow> string \<Rightarrow> obj \<Rightarrow> error + bool" where
  "matches f1 f2 query ob =
     (case lower_field ob f1 of
        Inl e \<Rightarrow> Inl e
      | Inr a \<Rightarrow>
          if includes_str a (toLowerCase query) then Inr True
          else (case lower_field ob f2 of
                  Inl e \<Rightarrow> Inl e
                | Inr b \<Rightarrow> Inr (includes_str b (toLowerCase query))))"

fun filter_js :: "('a \<Rightarrow> error + bool) \<Rightarrow> 'a list \<Rightarrow> error + 'a list" where
  "filter_js p [] = Inr []"
| "filter_js p (x # xs) =
     (case p x of
        Inl e \<Rightarrow> Inl e
      | Inr b \<Rightarrow>
          (case filter_js p xs of
             Inl e \<Rightarrow> Inl e
           | Inr ys \<Rightarrow> Inr (if b then x # ys else ys)))"

definition search_handler :: "database \<Rightarrow> string \<Rightarrow> error + obj list \<times> string" where
  "search_handler data query =
     (let found_pages =
            find_db data ''documentation_pages'' (Some [(''isPublished'', VBool True)]);
          found_examples = find_db data ''documentation_examples'' None
      in case filter_js (matches ''title'' ''content'' query) found_pages of
           Inl e \<Rightarrow> Inl e
         | Inr ps \<Rightarrow>
             (case filter_js (matches ''title'' ''description'' query) found_examples of
                Inl e \<Rightarrow> Inl e
              | Inr es \<Rightarrow> Inr (ps @ es, query)))"

subsection \<open>Notions used to state the properties of the service\<close>

text \<open>
  The records of a table (none when the table does not exist), and the record that
  \<^verbatim>\<open>insert\<close> makes of the given fields.
\<close>

definition table_of :: "database \<Rightarrow> string \<Rightarrow> table" where
  "table_of data T = (case map_of data T of Some t \<Rightarrow> t | None \<Rightarrow> [])"

definition completed :: "obj \<Rightarrow> string \<Rightarrow> nat \<Rightarrow> nat \<Rightarrow> obj" where
  "completed r uuid t1 t2 =
     spread (spread [] r)
       [(''id'', VStr uuid), (''createdAt'', VDate t1), (''updatedAt'', VDate t2)]"

text \<open>
  \<open>mentions ob k query\<close>: the field \<open>k\<close> of \<open>ob\<close> is a string that contains the query when
  both are put in lower case. \<open>has_text ob k\<close>: the field is a string.
\<close>

definition mentions :: "obj \<Rightarrow> string \<Rightarrow> string \<Rightarrow> bool" where
  "mentions ob k query =
     (case js_get ob k of
        Data (VStr s) \<Rightarrow> includes_str (toLowerCase s) (toLowerCase query)
      | _ \<Rightarrow> False)"

definition has_text :: "obj \<Rightarrow> string \<Rightarrow> bool" where
  "has_text ob k = (case js_get ob k of Data (VStr s) \<Rightarrow> True | _ \<Rightarrow> False)"

section \<open>Properties of the store\<close>

subsection \<open>Objects\<close>

lemma map_of_spread:
  "map_of (spread target src) k =
     (case map_of (rev src) k of Some v \<Rightarrow> Some v | None \<Rightarrow> map_of target k)"
  unfolding spread_def
proof (induction src arbitrary: target)
  case Nil
  show ?case by simp
next
  case (Cons a src)
  obtain k' v' where a: "a = (k', v')" by (cases a)
  show ?case
    by (auto simp: a Cons.IH update_conv' map_add_def split: option.splits)
qed

lemma distinct_spread:
  "distinct (map fst target) \<Longrightarrow> distinct (map fst (spread target src))"
  unfolding spread_def
  by (induction src arbitrary: target) (auto simp: distinct_update)

lemma map_of_rev_distinct:
  "distinct (map fst xs) \<Longrightarrow> map_of (rev xs) k = map_of xs k"
proof (induction xs)
  case Nil
  show ?case by simp
next
  case (Cons a xs)
  obtain k' v' where a: "a = (k', v')" by (cases a)
  from Cons.prems have notin: "k' \<notin> fst ` set xs" and d: "distinct (map fst xs)"
    by (simp_all add: a)
  from notin have none: "map_of xs k' = None"
    by (simp add: map_of_eq_None_iff)
  show ?case
    using Cons.IH [OF d] none
    by (auto simp: a map_add_def split: option.splits)
qed

lemma distinct_spread_nil: "distinct (map fst (spread [] ob))"
  by (rule distinct_spread) simp

lemma own_spread:
  assumes "distinct (map fst target)"
  shows "own (spread target src) k =
     (case own src k of Some v \<Rightarrow> Some v | None \<Rightarrow> own target k)"
proof -
  have "map_of (rev (spread target src)) k = map_of (spread target src) k"
    by (rule map_of_rev_distinct) (rule distinct_spread [OF assms])
  moreover have "map_of (rev target) k = map_of target k"
    by (rule map_of_rev_distinct) (rule assms)
  ultimately show ?thesis
    by (simp add: own_def map_of_spread split: option.splits)
qed

lemma own_spread_nil: "own (spread [] ob) k = own ob k"
  by (simp add: own_spread split: option.splits) (simp add: own_def)

lemma own_merge:
  "own (spread (spread [] ob) src) k =
     (case own src k of Some v \<Rightarrow> Some v | None \<Rightarrow> own ob k)"
  by (simp add: own_spread [OF distinct_spread_nil] own_spread_nil split: option.splits)

lemma own_merge2:
  "own (spread (spread (spread [] ob) u) src) k =
     (case own src k of
        Some v \<Rightarrow> Some v
      | None \<Rightarrow> (case own u k of Some v \<Rightarrow> Some v | None \<Rightarrow> own ob k))"
  by (simp add: own_spread [OF distinct_spread [OF distinct_spread_nil]] own_merge
      split: option.splits)

lemma js_get_spread_nil: "js_get (spread [] ob) k = js_get ob k"
  by (simp add: js_get_def own_spread_nil)

lemma js_get_merge:
  "js_get (spread (spread [] ob) src) k =
     (case own src k of Some v \<Rightarrow> Data v | None \<Rightarrow> js_get ob k)"
  by (simp add: js_get_def own_merge split: option.splits)

lemma js_get_merge2:
  "js_get (spread (spread (spread [] ob) u) src) k =
     (case own src k of
        Some v \<Rightarrow> Data v
      | None \<Rightarrow> (case own u k of Some v \<Rightarrow> Data v | None \<Rightarrow> js_get ob k))"
  by (simp add: js_get_def own_merge2 split: option.splits)

lemma own_None_iff: "own ob k = None \<longleftrightarrow> k \<notin> fst ` set ob"
  by (simp add: own_def map_of_eq_None_iff)

subsection \<open>Operations on a missing table or a missing identifier\<close>

lemma delete_absent: "map_of tbl k = None \<Longrightarrow> AList.delete k tbl = tbl"
  by (simp add: map_of_eq_None_iff)

lemma find_db_missing: "map_of data T = None \<Longrightarrow> find_db data T c = []"
  by (simp add: find_db_def)

lemma findById_missing_table: "map_of data T = None \<Longrightarrow> findById data T i = None"
  by (simp add: findById_def)

lemma findById_missing_id:
  "map_of data T = Some tbl \<Longrightarrow> map_of tbl i = None \<Longrightarrow> findById data T i = None"
  by (simp add: findById_def)

lemma update_db_missing_table:
  "map_of data T = None \<Longrightarrow> update_db data T i u now = (False, data)"
  by (simp add: update_db_def)

lemma update_db_missing_id:
  "map_of data T = Some tbl \<Longrightarrow> map_of tbl i = None \<Longrightarrow>
     update_db data T i u now = (False, data)"
  by (simp add: update_db_def)

lemma delete_db_missing_table:
  "map_of data T = None \<Longrightarrow> delete_db data T i = (False, data)"
  by (simp add: delete_db_def)

lemma delete_db_missing_id:
  "map_of data T = Some tbl \<Longrightarrow> map_of tbl i = None \<Longrightarrow> delete_db data T i = (False, data)"
  by (simp add: delete_db_def delete_absent update_triv)

subsection \<open>What insert and update store\<close>

lemma insert_db_record:
  "fst (insert_db data T r uuid t1 t2) =
     spread (spread [] r)
       [(''id'', VStr uuid), (''createdAt'', VDate t1), (''updatedAt'', VDate t2)]"
  by (simp add: insert_db_def Let_def)

lemma insert_db_findById:
  "findById (snd (insert_db data T r uuid t1 t2)) T uuid =
     Some (fst (insert_db data T r uuid t1 t2))"
  by (simp add: insert_db_def findById_def Let_def update_conv' split: option.splits)

lemma insert_db_findById_other:
  "k \<noteq> uuid \<Longrightarrow> findById (snd (insert_db data T r uuid t1 t2)) T k = findById data T k"
  by (simp add: insert_db_def findById_def createTable_def Let_def update_conv'
      split: option.splits)

lemma update_db_success:
  assumes "map_of data T = Some tbl" and "map_of tbl i = Some old"
  shows "update_db data T i u now =
    (True, AList.update T
       (AList.update i (spread (spread (spread [] old) u) [(''updatedAt'', VDate now)]) tbl)
       data)"
  using assms by (simp add: update_db_def)

lemma update_db_TrueD:
  assumes "update_db data T i u now = (True, data')"
  obtains tbl old where "map_of data T = Some tbl" and "map_of tbl i = Some old"
    and "data' = AList.update T
       (AList.update i (spread (spread (spread [] old) u) [(''updatedAt'', VDate now)]) tbl)
       data"
  using assms by (auto simp: update_db_def split: option.splits)

section \<open>Claims about the store\<close>

text \<open>
  C6. \<^verbatim>\<open>createTable(name)\<close> resets and is idempotent: afterwards the table exists and
  \<^verbatim>\<open>find(name)\<close> is empty, whatever the table held before and whatever conditions are
  given, and creating it a second time leaves the store as the first creation left it.
  The operation has no failing branch: it is a total function of the store.
\<close>

theorem createTable_resets_and_is_idempotent:
  "map_of (createTable data name) name = Some []
   \<and> find_db (createTable data name) name conditions = []
   \<and> createTable (createTable data name) name = createTable data name"
  by (cases conditions) (simp_all add: createTable_def find_db_def update_conv')

theorem createTable_resets_and_is_idempotent_witness:
  "find_db (createTable (snd (insert_db [] ''pages'' [(''title'', VStr ''Core'')] ''u1'' 7 7))
       ''pages'') ''pages'' None = []
   \<and> find_db (snd (insert_db [] ''pages'' [(''title'', VStr ''Core'')] ''u1'' 7 7))
       ''pages'' None \<noteq> []"
  using createTable_resets_and_is_idempotent
    [of "snd (insert_db [] ''pages'' [(''title'', VStr ''Core'')] ''u1'' 7 7)" "''pages''" None]
  by (simp add: insert_db_def find_db_def createTable_def Let_def)

text \<open>
  C5. On a table that does not exist, \<^verbatim>\<open>find\<close> returns the empty sequence,
  \<^verbatim>\<open>findById\<close> returns \<^verbatim>\<open>null\<close>, and \<^verbatim>\<open>update\<close> and \<^verbatim>\<open>delete\<close> return false; on an
  existing table and an identifier it does not hold, \<^verbatim>\<open>findById\<close> returns \<^verbatim>\<open>null\<close> and
  \<^verbatim>\<open>update\<close> and \<^verbatim>\<open>delete\<close> return false. In each case the store is returned unchanged.
  None of the four operations has a raising branch.
\<close>

theorem missing_table_or_id_is_a_noop:
  "(map_of data T = None \<longrightarrow>
      find_db data T conditions = []
      \<and> findById data T ident = None
      \<and> update_db data T ident updates now = (False, data)
      \<and> delete_db data T ident = (False, data))
   \<and> (\<forall>tbl. map_of data T = Some tbl \<and> map_of tbl ident = None \<longrightarrow>
      findById data T ident = None
      \<and> update_db data T ident updates now = (False, data)
      \<and> delete_db data T ident = (False, data))"
  using find_db_missing findById_missing_table findById_missing_id update_db_missing_table
    update_db_missing_id delete_db_missing_table delete_db_missing_id
  by metis

theorem missing_table_or_id_is_a_noop_witness:
  "map_of (createTable [] ''pages'') ''examples'' = None
   \<and> find_db (createTable [] ''pages'') ''examples'' None = []
   \<and> update_db (createTable [] ''pages'') ''examples'' ''u1'' [(''views'', VNum 1)] 9
       = (False, createTable [] ''pages'')
   \<and> map_of (createTable [] ''pages'') ''pages'' = Some []
   \<and> delete_db (createTable [] ''pages'') ''pages'' ''u1'' = (False, createTable [] ''pages'')
   \<and> findById (createTable [] ''pages'') ''pages'' ''u1'' = None"
proof -
  have a: "map_of (createTable [] ''pages'') ''examples'' = None"
    by (simp add: createTable_def)
  have b: "map_of (createTable [] ''pages'') ''pages'' = Some []
      \<and> map_of ([] :: table) ''u1'' = None"
    by (simp add: createTable_def)
  from a b missing_table_or_id_is_a_noop
    [of "createTable [] ''pages''" "''examples''" None "''u1''" "[(''views'', VNum 1)]" 9]
    missing_table_or_id_is_a_noop
    [of "createTable [] ''pages''" "''pages''" None "''u1''" "[(''views'', VNum 1)]" 9]
  show ?thesis by blast
qed

text \<open>
  C3, as the code has it. The identifier of the returned record is the value that
  \<^verbatim>\<open>randomUUID()\<close> gave to this call, also when the inserted fields carry an \<^verbatim>\<open>id\<close> of
  their own; so the records returned by two calls have different identifiers exactly
  when the two generated values differ, which the code relies on and does not check. The
  record is stored under that identifier and the records under other keys stay.
  \<^verbatim>\<open>createdAt\<close> and \<^verbatim>\<open>updatedAt\<close> are both set, to the two successive clock readings of
  the call, and are equal exactly when the two readings are.
\<close>

theorem insert_assigns_generated_id_and_clock_readings:
  assumes "insert_db data T r uuid t1 t2 = (rec, data')"
    and "insert_db data2 T r2 uuid2 s1 s2 = (rec2, data2')"
  shows "js_get rec ''id'' = Data (VStr uuid)
     \<and> (js_get rec ''id'' = js_get rec2 ''id'' \<longleftrightarrow> uuid = uuid2)
     \<and> findById data' T uuid = Some rec
     \<and> (\<forall>k. k \<noteq> uuid \<longrightarrow> findById data' T k = findById data T k)
     \<and> js_get rec ''createdAt'' = Data (VDate t1)
     \<and> js_get rec ''updatedAt'' = Data (VDate t2)
     \<and> (js_get rec ''createdAt'' = js_get rec ''updatedAt'' \<longleftrightarrow> t1 = t2)"
proof -
  have r1: "rec = fst (insert_db data T r uuid t1 t2)"
    and d1: "data' = snd (insert_db data T r uuid t1 t2)"
    using assms(1) by simp_all
  have r2: "rec2 = fst (insert_db data2 T r2 uuid2 s1 s2)"
    using assms(2) by simp
  have i1: "js_get rec ''id'' = Data (VStr uuid)"
    by (simp add: r1 insert_db_record js_get_merge own_def)
  have i2: "js_get rec2 ''id'' = Data (VStr uuid2)"
    by (simp add: r2 insert_db_record js_get_merge own_def)
  have c: "js_get rec ''createdAt'' = Data (VDate t1)"
    by (simp add: r1 insert_db_record js_get_merge own_def)
  have u: "js_get rec ''updatedAt'' = Data (VDate t2)"
    by (simp add: r1 insert_db_record js_get_merge own_def)
  have f: "findById data' T uuid = Some rec"
    by (simp add: r1 d1 insert_db_findById)
  have g: "\<forall>k. k \<noteq> uuid \<longrightarrow> findById data' T k = findById data T k"
    by (simp add: d1 insert_db_findById_other)
  show ?thesis
    using i1 i2 c u f g by simp
qed

theorem insert_assigns_generated_id_and_clock_readings_witness:
  "js_get (fst (insert_db [] ''pages'' [(''id'', VStr ''mine'')] ''u1'' 5 5)) ''id'' = Data (VStr ''u1'')
   \<and> js_get (fst (insert_db [] ''pages'' [(''id'', VStr ''mine'')] ''u1'' 5 5)) ''id''
       \<noteq> js_get (fst (insert_db [] ''pages'' [] ''u2'' 6 8)) ''id''
   \<and> js_get (fst (insert_db [] ''pages'' [(''id'', VStr ''mine'')] ''u1'' 5 5)) ''createdAt''
       = js_get (fst (insert_db [] ''pages'' [(''id'', VStr ''mine'')] ''u1'' 5 5)) ''updatedAt''"
proof -
  have h1: "insert_db [] ''pages'' [(''id'', VStr ''mine'')] ''u1'' 5 5 =
      (fst (insert_db [] ''pages'' [(''id'', VStr ''mine'')] ''u1'' 5 5),
       snd (insert_db [] ''pages'' [(''id'', VStr ''mine'')] ''u1'' 5 5))"
    by simp
  have h2: "insert_db [] ''pages'' [] ''u2'' 6 8 =
      (fst (insert_db [] ''pages'' [] ''u2'' 6 8), snd (insert_db [] ''pages'' [] ''u2'' 6 8))"
    by simp
  have ne: "''u1'' \<noteq> ''u2''"
    by simp
  from insert_assigns_generated_id_and_clock_readings [OF h1 h2] ne
  show ?thesis
    by blast
qed

text \<open>
  C3 as stated fails: when the clock advances between the two \<^verbatim>\<open>new Date()\<close> of one
  \<^verbatim>\<open>insert\<close> (readings 1000 and 1001), the record's \<^verbatim>\<open>createdAt\<close> and \<^verbatim>\<open>updatedAt\<close>
  differ.
\<close>

theorem insert_timestamps_counterexample:
  "insert_db [] ''documentation_pages'' [(''title'', VStr ''Core'')] ''u1'' 1000 1001 =
     ([(''title'', VStr ''Core''), (''id'', VStr ''u1''), (''createdAt'', VDate 1000),
       (''updatedAt'', VDate 1001)],
      [(''documentation_pages'',
         [(''u1'', [(''title'', VStr ''Core''), (''id'', VStr ''u1''),
                    (''createdAt'', VDate 1000), (''updatedAt'', VDate 1001)])])])
   \<and> js_get [(''title'', VStr ''Core''), (''id'', VStr ''u1''), (''createdAt'', VDate 1000),
         (''updatedAt'', VDate 1001)] ''createdAt''
     \<noteq> js_get [(''title'', VStr ''Core''), (''id'', VStr ''u1''), (''createdAt'', VDate 1000),
         (''updatedAt'', VDate 1001)] ''updatedAt''"
  by (simp add: insert_db_def createTable_def spread_def Let_def js_get_def own_def)

section \<open>Claims about update\<close>

text \<open>
  C4, as the code has it. After \<^verbatim>\<open>update(T, id, {f: v})\<close> on a record that exists, the
  call returns true and \<^verbatim>\<open>findById(T, id)\<close> yields a record whose field \<open>f\<close> is \<open>v\<close>
  (for every \<open>f\<close> but \<^verbatim>\<open>updatedAt\<close>, which the update overwrites) and whose \<^verbatim>\<open>updatedAt\<close>
  is the clock reading of the update: it is strictly later than the previous
  \<^verbatim>\<open>updatedAt\<close> exactly when the clock has advanced past it.
\<close>

theorem update_then_findById:
  assumes "map_of data T = Some tbl" and "map_of tbl ident = Some old"
    and "update_db data T ident [(f, v)] now = (ok, data')"
  shows "ok \<and> (\<exists>new. findById data' T ident = Some new
           \<and> (f \<noteq> ''updatedAt'' \<longrightarrow> js_get new f = Data v)
           \<and> js_get new ''updatedAt'' = Data (VDate now)
           \<and> (\<forall>t0. js_get old ''updatedAt'' = Data (VDate t0) \<longrightarrow>
                 (later (js_get new ''updatedAt'') (js_get old ''updatedAt'') \<longleftrightarrow> t0 < now)))"
proof -
  let ?r = "spread (spread (spread [] old) [(f, v)]) [(''updatedAt'', VDate now)]"
  have eq: "(ok, data') = (True, AList.update T (AList.update ident ?r tbl) data)"
    using update_db_success [OF assms(1,2)] assms(3) by simp
  then have ok: "ok" and d: "data' = AList.update T (AList.update ident ?r tbl) data"
    by simp_all
  have fnd: "findById data' T ident = Some ?r"
    by (simp add: d findById_def update_conv')
  have fv: "f \<noteq> ''updatedAt'' \<longrightarrow> js_get ?r f = Data v"
    by (simp add: js_get_merge2 own_def)
  have up: "js_get ?r ''updatedAt'' = Data (VDate now)"
    by (simp add: js_get_merge2 own_def)
  show ?thesis
    using ok fnd fv up by simp
qed

theorem update_then_findById_witness:
  "update_db [(''pages'', [(''u1'', [(''views'', VNum 0), (''updatedAt'', VDate 1000)])])]
      ''pages'' ''u1'' [(''views'', VNum 1)] 1005
    = (True, [(''pages'', [(''u1'', [(''views'', VNum 1), (''updatedAt'', VDate 1005)])])])
   \<and> findById [(''pages'', [(''u1'', [(''views'', VNum 1), (''updatedAt'', VDate 1005)])])]
        ''pages'' ''u1'' = Some [(''views'', VNum 1), (''updatedAt'', VDate 1005)]
   \<and> later (js_get [(''views'', VNum 1), (''updatedAt'', VDate 1005)] ''updatedAt'')
        (js_get [(''views'', VNum 0), (''updatedAt'', VDate 1000)] ''updatedAt'')"
proof -
  let ?old = "[(''views'', VNum 0), (''updatedAt'', VDate 1000)]"
  let ?tbl = "[(''u1'', ?old)]"
  let ?data = "[(''pages'', ?tbl)]"
  let ?data' = "[(''pages'', [(''u1'', [(''views'', VNum 1), (''updatedAt'', VDate 1005)])])]"
  have h1: "map_of ?data ''pages'' = Some ?tbl" by simp
  have h2: "map_of ?tbl ''u1'' = Some ?old" by simp
  have h3: "update_db ?data ''pages'' ''u1'' [(''views'', VNum 1)] 1005 = (True, ?data')"
    by (simp add: update_db_def spread_def)
  have o: "js_get ?old ''updatedAt'' = Data (VDate 1000)"
    by (simp add: js_get_def own_def)
  from update_then_findById [OF h1 h2 h3] obtain new where
    n: "findById ?data' ''pages'' ''u1'' = Some new"
    and l: "\<forall>t0. js_get ?old ''updatedAt'' = Data (VDate t0) \<longrightarrow>
          (later (js_get new ''updatedAt'') (js_get ?old ''updatedAt'') \<longleftrightarrow> t0 < 1005)"
    by blast
  have new: "new = [(''views'', VNum 1), (''updatedAt'', VDate 1005)]"
    using n by (simp add: findById_def)
  from l o have "later (js_get new ''updatedAt'') (js_get ?old ''updatedAt'')"
    by simp
  with h3 n new show ?thesis
    by simp
qed

text \<open>
  C4 as stated fails: an update in the millisecond of the insert (both read the clock at
  1000) succeeds, \<^verbatim>\<open>findById\<close> shows the new field value, and \<^verbatim>\<open>updatedAt\<close> is the same
  instant as before, not a later one.
\<close>

theorem update_same_millisecond_counterexample:
  "insert_db [] ''pages'' [(''views'', VNum 0)] ''u1'' 1000 1000 =
     ([(''views'', VNum 0), (''id'', VStr ''u1''), (''createdAt'', VDate 1000),
       (''updatedAt'', VDate 1000)],
      [(''pages'', [(''u1'', [(''views'', VNum 0), (''id'', VStr ''u1''),
                              (''createdAt'', VDate 1000), (''updatedAt'', VDate 1000)])])])
   \<and> update_db
        [(''pages'', [(''u1'', [(''views'', VNum 0), (''id'', VStr ''u1''),
                                (''createdAt'', VDate 1000), (''updatedAt'', VDate 1000)])])]
        ''pages'' ''u1'' [(''views'', VNum 1)] 1000 =
     (True,
      [(''pages'', [(''u1'', [(''views'', VNum 1), (''id'', VStr ''u1''),
                              (''createdAt'', VDate 1000), (''updatedAt'', VDate 1000)])])])
   \<and> findById
        [(''pages'', [(''u1'', [(''views'', VNum 1), (''id'', VStr ''u1''),
                                (''createdAt'', VDate 1000), (''updatedAt'', VDate 1000)])])]
        ''pages'' ''u1'' =
      Some [(''views'', VNum 1), (''id'', VStr ''u1''), (''createdAt'', VDate 1000),
            (''updatedAt'', VDate 1000)]
   \<and> \<not> later
        (js_get [(''views'', VNum 1), (''id'', VStr ''u1''), (''createdAt'', VDate 1000),
                 (''updatedAt'', VDate 1000)] ''updatedAt'')
        (js_get [(''views'', VNum 0), (''id'', VStr ''u1''), (''createdAt'', VDate 1000),
                 (''updatedAt'', VDate 1000)] ''updatedAt'')"
  by (simp add: insert_db_def update_db_def findById_def createTable_def spread_def Let_def
      js_get_def own_def)

text \<open>
  C10. When \<^verbatim>\<open>update(T, id, u)\<close> returns true: every other table is unchanged, the
  tables and the keys of \<open>T\<close> keep their order, every record of \<open>T\<close> under another key is
  unchanged, and in the record under \<open>id\<close> every field that \<open>u\<close> does not name, other than
  \<^verbatim>\<open>updatedAt\<close>, keeps its value. The merge is unrestricted: when \<open>u\<close> names \<^verbatim>\<open>id\<close>, the
  stored record's \<^verbatim>\<open>id\<close> field becomes \<^verbatim>\<open>u.id\<close>, and the record stays under the key \<open>id\<close>.
\<close>

theorem update_frame:
  assumes "update_db data T ident u now = (True, data')"
  shows "(\<forall>T'. T' \<noteq> T \<longrightarrow> map_of data' T' = map_of data T')
     \<and> map fst data' = map fst data
     \<and> (\<exists>tbl tbl' old new.
          map_of data T = Some tbl \<and> map_of data' T = Some tbl'
        \<and> map_of tbl ident = Some old \<and> map_of tbl' ident = Some new
        \<and> map fst tbl' = map fst tbl
        \<and> (\<forall>k. k \<noteq> ident \<longrightarrow> map_of tbl' k = map_of tbl k)
        \<and> (\<forall>g. g \<notin> fst ` set u \<and> g \<noteq> ''updatedAt'' \<longrightarrow> js_get new g = js_get old g)
        \<and> (''id'' \<in> fst ` set u \<longrightarrow> js_get new ''id'' = js_get u ''id''))"
proof -
  from assms obtain tbl old where t: "map_of data T = Some tbl"
    and r: "map_of tbl ident = Some old"
    and d: "data' = AList.update T
       (AList.update ident (spread (spread (spread [] old) u) [(''updatedAt'', VDate now)]) tbl)
       data"
    by (rule update_db_TrueD)
  let ?r = "spread (spread (spread [] old) u) [(''updatedAt'', VDate now)]"
  let ?t = "AList.update ident ?r tbl"
  have other_tables: "\<forall>T'. T' \<noteq> T \<longrightarrow> map_of data' T' = map_of data T'"
    by (simp add: d update_conv')
  have Tin: "T \<in> set (map fst data)"
    using t by (metis map_of_eq_None_iff option.distinct(1) set_map)
  have iin: "ident \<in> set (map fst tbl)"
    using r by (metis map_of_eq_None_iff option.distinct(1) set_map)
  have keys: "map fst data' = map fst data"
    using Tin by (simp add: d update_keys)
  have tkeys: "map fst ?t = map fst tbl"
    using iin by (simp add: update_keys)
  have t': "map_of data' T = Some ?t"
    by (simp add: d update_conv')
  have r': "map_of ?t ident = Some ?r"
    by (simp add: update_conv')
  have others: "\<forall>k. k \<noteq> ident \<longrightarrow> map_of ?t k = map_of tbl k"
    by (simp add: update_conv')
  have fields: "\<forall>g. g \<notin> fst ` set u \<and> g \<noteq> ''updatedAt'' \<longrightarrow> js_get ?r g = js_get old g"
    by (auto simp: js_get_merge2 own_def own_None_iff [symmetric] split: option.splits)
  have idf: "''id'' \<in> fst ` set u \<longrightarrow> js_get ?r ''id'' = js_get u ''id''"
  proof
    assume "''id'' \<in> fst ` set u"
    then have "own u ''id'' \<noteq> None"
      by (simp add: own_None_iff)
    then obtain y where y: "own u ''id'' = Some y"
      by blast
    have n: "own [(''updatedAt'', VDate now)] ''id'' = None"
      by (simp add: own_def)
    have "js_get ?r ''id'' = Data y"
      by (simp add: js_get_merge2 y n)
    moreover have "js_get u ''id'' = Data y"
      by (simp add: js_get_def y)
    ultimately show "js_get ?r ''id'' = js_get u ''id''"
      by simp
  qed
  show ?thesis
    using other_tables keys t t' r r' tkeys others fields idf by blast
qed

theorem update_frame_witness:
  "update_db
      [(''pages'', [(''u1'', [(''title'', VStr ''Core''), (''id'', VStr ''u1'')]),
                    (''u2'', [(''title'', VStr ''API''), (''id'', VStr ''u2'')])]),
       (''examples'', [(''e1'', [(''id'', VStr ''e1'')])])]
      ''pages'' ''u1'' [(''id'', VStr ''other'')] 7 =
     (True,
      [(''pages'', [(''u1'', [(''title'', VStr ''Core''), (''id'', VStr ''other''),
                              (''updatedAt'', VDate 7)]),
                    (''u2'', [(''title'', VStr ''API''), (''id'', VStr ''u2'')])]),
       (''examples'', [(''e1'', [(''id'', VStr ''e1'')])])])
   \<and> map_of
        [(''pages'', [(''u1'', [(''title'', VStr ''Core''), (''id'', VStr ''other''),
                                (''updatedAt'', VDate 7)]),
                      (''u2'', [(''title'', VStr ''API''), (''id'', VStr ''u2'')])]),
         (''examples'', [(''e1'', [(''id'', VStr ''e1'')])])] ''examples''
       = Some [(''e1'', [(''id'', VStr ''e1'')])]
   \<and> js_get [(''title'', VStr ''Core''), (''id'', VStr ''other''), (''updatedAt'', VDate 7)]
        ''id'' = Data (VStr ''other'')
   \<and> js_get [(''title'', VStr ''Core''), (''id'', VStr ''other''), (''updatedAt'', VDate 7)]
        ''title'' = Data (VStr ''Core'')"
proof -
  define old :: obj where "old = [(''title'', VStr ''Core''), (''id'', VStr ''u1'')]"
  define new :: obj
    where "new = [(''title'', VStr ''Core''), (''id'', VStr ''other''), (''updatedAt'', VDate 7)]"
  define ex :: table where "ex = [(''e1'', [(''id'', VStr ''e1'')])]"
  define other :: obj where "other = [(''title'', VStr ''API''), (''id'', VStr ''u2'')]"
  define data :: database
    where "data = [(''pages'', [(''u1'', old), (''u2'', other)]), (''examples'', ex)]"
  define data' :: database
    where "data' = [(''pages'', [(''u1'', new), (''u2'', other)]), (''examples'', ex)]"
  define u :: obj where "u = [(''id'', VStr ''other'')]"
  have h: "update_db data ''pages'' ''u1'' u 7 = (True, data')"
    by (simp add: update_db_def spread_def data_def data'_def old_def new_def u_def)
  have uid: "''id'' \<in> fst ` set u" and ntitle: "''title'' \<notin> fst ` set u"
    by (simp_all add: u_def)
  have tbl: "map_of data ''pages'' = Some [(''u1'', old), (''u2'', other)]"
    and tbl': "map_of data' ''pages'' = Some [(''u1'', new), (''u2'', other)]"
    by (simp_all add: data_def data'_def)
  note fr = update_frame [OF h]
  from fr have others: "\<forall>T'. T' \<noteq> ''pages'' \<longrightarrow> map_of data' T' = map_of data T'"
    by (rule conjunct1)
  from fr have "\<exists>tbl tbl' old new.
          map_of data ''pages'' = Some tbl \<and> map_of data' ''pages'' = Some tbl'
        \<and> map_of tbl ''u1'' = Some old \<and> map_of tbl' ''u1'' = Some new
        \<and> map fst tbl' = map fst tbl
        \<and> (\<forall>k. k \<noteq> ''u1'' \<longrightarrow> map_of tbl' k = map_of tbl k)
        \<and> (\<forall>g. g \<notin> fst ` set u \<and> g \<noteq> ''updatedAt'' \<longrightarrow> js_get new g = js_get old g)
        \<and> (''id'' \<in> fst ` set u \<longrightarrow> js_get new ''id'' = js_get u ''id'')"
    by (rule conjunct2 [THEN conjunct2])
  then obtain t t' ro rn where
    c: "map_of data ''pages'' = Some t \<and> map_of data' ''pages'' = Some t'
        \<and> map_of t ''u1'' = Some ro \<and> map_of t' ''u1'' = Some rn
        \<and> map fst t' = map fst t
        \<and> (\<forall>k. k \<noteq> ''u1'' \<longrightarrow> map_of t' k = map_of t k)
        \<and> (\<forall>g. g \<notin> fst ` set u \<and> g \<noteq> ''updatedAt'' \<longrightarrow> js_get rn g = js_get ro g)
        \<and> (''id'' \<in> fst ` set u \<longrightarrow> js_get rn ''id'' = js_get u ''id'')"
    by (elim exE)
  from c have t: "map_of data ''pages'' = Some t" and t': "map_of data' ''pages'' = Some t'"
    and o: "map_of t ''u1'' = Some ro" and n: "map_of t' ''u1'' = Some rn"
    by simp_all
  from c have keep: "\<forall>g. g \<notin> fst ` set u \<and> g \<noteq> ''updatedAt'' \<longrightarrow> js_get rn g = js_get ro g"
    by (elim conjE)
  from c have idf: "''id'' \<in> fst ` set u \<longrightarrow> js_get rn ''id'' = js_get u ''id''"
    by (elim conjE)
  from t tbl have teq: "t = [(''u1'', old), (''u2'', other)]" by simp
  from t' tbl' have teq': "t' = [(''u1'', new), (''u2'', other)]" by simp
  from o have ro: "ro = old" by (simp add: teq)
  from n have rn: "rn = new" by (simp add: teq')
  from others have e: "map_of data' ''examples'' = map_of data ''examples''"
    by simp
  from idf uid have i: "js_get new ''id'' = js_get u ''id''"
    by (simp add: rn)
  from keep ntitle have k: "js_get new ''title'' = js_get old ''title''"
    by (simp add: rn ro)
  have v1: "js_get u ''id'' = Data (VStr ''other'')" and v2: "js_get old ''title'' = Data (VStr ''Core'')"
    by (simp_all add: js_get_def own_def u_def old_def)
  have e': "map_of data ''examples'' = Some ex"
    by (simp add: data_def)
  from h e e' i k v1 v2 show ?thesis
    by (simp add: data_def data'_def old_def new_def u_def ex_def other_def)
qed

section \<open>Properties of the template passes\<close>

subsection \<open>Results\<close>

lemma cat_assoc: "cat (cat a b) c = cat a (cat b c)"
  by (cases a; cases b; cases c) simp_all

lemma cat_Nil [simp]: "cat (Inr []) b = b" "cat a (Inr []) = a"
  by (cases b; simp) (cases a; simp)

lemma cat_all_simps [simp]:
  "cat_all [] = Inr []" "cat_all (r # rs) = cat r (cat_all rs)"
  by (simp_all add: cat_all_def)

lemma map_join_cat_all: "map_join f xs = cat_all (map f xs)"
  by (induction xs) simp_all

lemma only_TypeError: "Inl e = (Inl TypeError :: error + 'a)"
  by (cases e) simp

lemma cat_Inl: "cat a (Inl e) = Inl TypeError" "cat (Inl e) b = Inl TypeError"
proof -
  show "cat a (Inl e) = Inl TypeError"
  proof (cases a)
    case (Inl e')
    then show ?thesis
      using only_TypeError [of e'] by simp
  next
    case (Inr x)
    then show ?thesis
      using only_TypeError [of e] by simp
  qed
  show "cat (Inl e) b = Inl TypeError"
    using only_TypeError [of e] by simp
qed

lemma join_Inl: "Inl e \<in> set rs \<Longrightarrow> join sep rs = Inl TypeError"
proof (induction sep rs rule: join.induct)
  case (1 sep)
  then show ?case by simp
next
  case (2 sep x)
  then show ?case
    using only_TypeError [of e] by simp
next
  case (3 sep x y ys)
  show ?case
  proof (cases "x = Inl e")
    case True
    then show ?thesis
      using only_TypeError [of e] by simp
  next
    case False
    with "3.prems" have "Inl e \<in> set (y # ys)"
      by simp
    then have "join sep (y # ys) = Inl TypeError"
      by (rule "3.IH")
    then show ?thesis
      by (simp add: cat_Inl)
  qed
qed

text \<open>The values that have no string form.\<close>

lemma to_string_own_toString:
  "own ob ''toString'' \<noteq> None \<Longrightarrow> to_string h (VObj ob) = Inl TypeError"
  by simp

lemma to_string_array_throws:
  assumes "VObj ob \<in> set xs" and "own ob ''toString'' \<noteq> None"
  shows "to_string h (VArr xs) = Inl TypeError"
proof -
  let ?f = "\<lambda>x. if x = VUndef \<or> x = VNull then Inr [] else to_string h x"
  from assms(2) have "Inl TypeError = ?f (VObj ob)"
    by simp
  with assms(1) have "Inl TypeError \<in> ?f ` set xs"
    by (rule rev_image_eqI)
  then have "Inl TypeError \<in> set (map ?f xs)"
    by simp
  then have "join '','' (map ?f xs) = Inl TypeError"
    by (rule join_Inl)
  then show ?thesis
    by simp
qed

subsection \<open>Matchers on a text that is extended\<close>

lemma not_word_char [simp]:
  "\<not> is_word_char CHR ''{''" "\<not> is_word_char CHR ''}''" "\<not> is_word_char CHR ''.''"
  by (simp_all add: is_word_char_def)

lemma word_token:
  assumes "name \<noteq> []" and "list_all is_word_char name" and "\<not> is_word_char c"
  shows "word (name @ c # post) = Some (name, c # post)"
proof -
  from assms(2) have all: "\<And>x. x \<in> set name \<Longrightarrow> is_word_char x"
    by (simp add: list_all_iff)
  have t: "takeWhile is_word_char (name @ c # post) = name"
    using all assms(3) by (simp add: takeWhile_append2)
  have dr: "dropWhile is_word_char (name @ c # post) = c # post"
    using all assms(3) by (simp add: dropWhile_append2)
  show ?thesis
    using assms(1) by (simp add: word_def t dr)
qed

lemma match_var_token:
  assumes "name \<noteq> []" and "list_all is_word_char name"
  shows "match_var (''{{'' @ name @ ''}}'' @ post) = Some (name, post)"
proof -
  have "word (name @ CHR ''}'' # CHR ''}'' # post) = Some (name, CHR ''}'' # CHR ''}'' # post)"
    by (rule word_token [OF assms]) simp
  then show ?thesis
    by (simp add: match_var_def lit_def)
qed

lemma not_space_brace [simp]: "\<not> is_space CHR ''{''"
  by (simp add: is_space_def)

lemma word_extend:
  "word (q @ CHR ''{'' # z) = map_option (\<lambda>(k, r). (k, r @ CHR ''{'' # z)) (word q)"
  by (simp add: word_def takeWhile_tail dropWhile_append3)

lemma spaces0_extend:
  "spaces0 (q @ CHR ''{'' # z) = map_option (\<lambda>r. r @ CHR ''{'' # z) (spaces0 q)"
  by (simp add: spaces0_def dropWhile_append3)

lemma spaces1_extend:
  "spaces1 (q @ CHR ''{'' # z) = map_option (\<lambda>r. r @ CHR ''{'' # z) (spaces1 q)"
  by (simp add: spaces1_def takeWhile_tail dropWhile_append3)

lemma lit_extend:
  assumes "CHR ''{'' \<notin> set p"
  shows "lit p (q @ CHR ''{'' # z) = map_option (\<lambda>r. r @ CHR ''{'' # z) (lit p q)"
proof (cases "length p \<le> length q")
  case True
  have t: "take (length p) (q @ CHR ''{'' # z) = take (length p) q"
    using True by simp
  have d: "drop (length p) (q @ CHR ''{'' # z) = drop (length p) q @ CHR ''{'' # z"
    using True by simp
  show ?thesis
    unfolding lit_def t d by simp
next
  case False
  then have short: "length q < length p" by simp
  have "take (length p) q \<noteq> p"
  proof
    assume "take (length p) q = p"
    then have "length (take (length p) q) = length p" by simp
    with short show False by simp
  qed
  then have n: "lit p q = None"
    by (simp add: lit_def)
  obtain m where m: "length p - length q = Suc m"
    using short by (cases "length p - length q") simp_all
  have "take (length p) (q @ CHR ''{'' # z) = take (length p) q @ CHR ''{'' # take m z"
    by (simp add: m)
  then have inset: "CHR ''{'' \<in> set (take (length p) (q @ CHR ''{'' # z))"
    by (simp only: set_append set_simps) simp
  have "take (length p) (q @ CHR ''{'' # z) \<noteq> p"
  proof
    assume "take (length p) (q @ CHR ''{'' # z) = p"
    with inset have "CHR ''{'' \<in> set p" by (simp only:)
    with assms show False by (simp only: not_True_eq_False)
  qed
  then have "lit p (q @ CHR ''{'' # z) = None"
    by (simp only: lit_def if_False)
  with n show ?thesis
    by simp
qed

lemma lit_tag_extend:
  assumes "q \<noteq> []"
  shows "lit ''{%'' (q @ CHR ''{'' # z) = map_option (\<lambda>r. r @ CHR ''{'' # z) (lit ''{%'' q)"
proof (cases q)
  case Nil
  with assms show ?thesis by simp
next
  case (Cons a q')
  then show ?thesis
    by (cases q') (auto simp: lit_def)
qed

lemma lit_open: "lit ''{{'' (CHR ''{'' # CHR ''{'' # r) = Some r"
  by (simp add: lit_def)

lemma lit_open_None: "\<not> (c1 = CHR ''{'' \<and> c2 = CHR ''{'') \<Longrightarrow> lit ''{{'' (c1 # c2 # r) = None"
  by (auto simp: lit_def)

lemma lit_open_short: "lit ''{{'' [c] = None" "lit ''{{'' [] = None"
  by (simp_all add: lit_def)

lemma match_var_open: "match_var (CHR ''{'' # CHR ''{'' # r) = var_tail r"
  by (simp add: match_var_def lit_open var_tail_def)

lemma lit_close_extend:
  "lit ''}}'' (q @ CHR ''{'' # z) = map_option (\<lambda>r. r @ CHR ''{'' # z) (lit ''}}'' q)"
  by (rule lit_extend) simp

lemma var_tail_extend:
  "var_tail (r @ CHR ''{'' # z) = map_option (\<lambda>(k, x). (k, x @ CHR ''{'' # z)) (var_tail r)"
proof (cases "word r")
  case None
  then show ?thesis
    by (simp add: var_tail_def word_extend)
next
  case (Some a)
  obtain k q where a: "a = (k, q)" by (cases a)
  show ?thesis
    by (cases "lit ''}}'' q") (simp_all add: var_tail_def word_extend Some a lit_close_extend)
qed

lemma var_tail_brace: "var_tail (CHR ''{'' # z) = None"
  by (simp add: var_tail_def word_def)

lemma match_var_extend:
  assumes "p \<noteq> []"
  shows "match_var (p @ ''{{'' @ z) = map_option (\<lambda>(k, r). (k, r @ ''{{'' @ z)) (match_var p)"
proof (cases p)
  case Nil
  with assms show ?thesis by simp
next
  case (Cons c1 p1)
  note p = Cons
  show ?thesis
  proof (cases p1)
    case Nil
    have m: "\<And>c. match_var [c] = None"
      by (simp add: match_var_def lit_open_short)
    show ?thesis
    proof (cases "c1 = CHR ''{''")
      case True
      then show ?thesis
        by (simp add: p Nil m match_var_open var_tail_brace)
    next
      case False
      then show ?thesis
        by (simp add: p Nil match_var_def lit_open_None lit_open_short)
    qed
  next
    case (Cons c2 r)
    show ?thesis
    proof (cases "c1 = CHR ''{'' \<and> c2 = CHR ''{''")
      case False
      then show ?thesis
        by (simp add: p Cons match_var_def lit_open_None)
    next
      case True
      then show ?thesis
        by (simp add: p Cons match_var_open var_tail_extend)
    qed
  qed
qed

subsection \<open>The variable pass\<close>

lemma subst_vars_token:
  assumes "name \<noteq> []" and "list_all is_word_char name"
  shows "subst_vars h data (pre @ ''{{'' @ name @ ''}}'' @ post) =
     cat (subst_vars h data pre) (cat (or_empty h (js_get data name)) (subst_vars h data post))"
proof (induction h data pre rule: subst_vars.induct)
  case (1 h data)
  have "subst_vars h data (''{{'' @ name @ ''}}'' @ post) =
      cat (or_empty h (js_get data name)) (subst_vars h data post)"
    using match_var_token [OF assms, of post] by simp
  then show ?case by simp
next
  case (2 h data c cs)
  have ext: "match_var ((c # cs) @ ''{{'' @ name @ ''}}'' @ post) =
      map_option (\<lambda>(k, r). (k, r @ ''{{'' @ name @ ''}}'' @ post)) (match_var (c # cs))"
    by (rule match_var_extend) simp
  show ?case
  proof (cases "match_var (c # cs)")
    case None
    with ext have "match_var (c # cs @ ''{{'' @ name @ ''}}'' @ post) = None"
      by simp
    with None 2 show ?thesis
      by (simp add: cat_assoc)
  next
    case (Some a)
    obtain k rest where a: "a = (k, rest)" by (cases a)
    with ext Some have "match_var (c # cs @ ''{{'' @ name @ ''}}'' @ post) =
        Some (k, rest @ ''{{'' @ name @ ''}}'' @ post)"
      by simp
    with Some a 2 show ?thesis
      by (simp add: cat_assoc)
  qed
qed

lemma subst_vars_no_match: "no_match match_var t \<Longrightarrow> subst_vars h data t = Inr t"
  by (induction t) simp_all

lemma subst_ifs_no_match: "no_match match_if_block t \<Longrightarrow> subst_ifs data t = t"
  by (induction t) simp_all

subsection \<open>The loop pass\<close>

lemma match_close_extend:
  assumes "CHR ''{'' \<notin> set kw" and "q \<noteq> []"
  shows "match_close kw (q @ CHR ''{'' # z) = map_option (\<lambda>r. r @ CHR ''{'' # z) (match_close kw q)"
proof -
  have pc: "CHR ''{'' \<notin> set ''%}''" by simp
  show ?thesis
    unfolding match_close_def
    by (simp add: lit_tag_extend [OF assms(2)] spaces0_extend lit_extend [OF assms(1)]
        lit_extend [OF pc] bind_map_option map_option_bind comp_def)
qed


lemma match_for_open_extend:
  assumes "q \<noteq> []"
  shows "match_for_open (q @ CHR ''{'' # z) =
     map_option (\<lambda>(i, a, r). (i, a, r @ CHR ''{'' # z)) (match_for_open q)"
proof -
  have pc: "CHR ''{'' \<notin> set ''%}''" "CHR ''{'' \<notin> set ''for''" "CHR ''{'' \<notin> set ''in''"
    by simp_all
  show ?thesis
    unfolding match_for_open_def
    by (simp add: lit_tag_extend [OF assms] spaces0_extend spaces1_extend word_extend
        lit_extend [OF pc(1)] lit_extend [OF pc(2)] lit_extend [OF pc(3)]
        bind_map_option map_option_bind comp_def split_beta)
qed

lemma not_word_space [simp]: "\<not> is_word_char CHR '' ''"
  by (simp add: is_word_char_def)

lemma space_chars [simp]:
  "is_space CHR '' ''" "\<not> is_space CHR ''f''" "\<not> is_space CHR ''i''" "\<not> is_space CHR ''e''"
  "\<not> is_space CHR ''%''"
  by (simp_all add: is_space_def)

lemma word_not_space: "is_word_char c \<Longrightarrow> \<not> is_space c"
  by (auto simp: is_word_char_def is_space_def)

lemma match_for_open_tag:
  assumes "itemVar \<noteq> []" and "list_all is_word_char itemVar"
    and "arrayVar \<noteq> []" and "list_all is_word_char arrayVar"
  shows "match_for_open (''{% for '' @ itemVar @ '' in '' @ arrayVar @ '' %}'' @ rest) =
     Some (itemVar, arrayVar, rest)"
proof -
  have w1: "word (itemVar @ CHR '' '' # ''in '' @ arrayVar @ '' %}'' @ rest) =
      Some (itemVar, CHR '' '' # ''in '' @ arrayVar @ '' %}'' @ rest)"
    by (rule word_token [OF assms(1,2)]) simp
  have w2: "word (arrayVar @ CHR '' '' # ''%}'' @ rest) = Some (arrayVar, CHR '' '' # ''%}'' @ rest)"
    by (rule word_token [OF assms(3,4)]) simp
  from assms(1,2) have i0: "\<not> is_space (hd itemVar)"
    by (cases itemVar) (simp_all add: word_not_space)
  from assms(3,4) have a0: "\<not> is_space (hd arrayVar)"
    by (cases arrayVar) (simp_all add: word_not_space)
  have s1: "spaces1 (CHR '' '' # itemVar @ CHR '' '' # ''in '' @ arrayVar @ '' %}'' @ rest) =
      Some (itemVar @ CHR '' '' # ''in '' @ arrayVar @ '' %}'' @ rest)"
    using assms(1) i0 by (cases itemVar) (simp_all add: spaces1_def)
  have s2: "spaces1 (CHR '' '' # arrayVar @ CHR '' '' # ''%}'' @ rest) =
      Some (arrayVar @ CHR '' '' # ''%}'' @ rest)"
    using assms(3) a0 by (cases arrayVar) (simp_all add: spaces1_def)
  have l1: "lit ''{%'' (''{% for '' @ itemVar @ '' in '' @ arrayVar @ '' %}'' @ rest) =
      Some (CHR '' '' # ''for '' @ itemVar @ '' in '' @ arrayVar @ '' %}'' @ rest)"
    by (simp add: lit_def)
  have s0: "spaces0 (CHR '' '' # ''for '' @ itemVar @ '' in '' @ arrayVar @ '' %}'' @ rest) =
      Some (''for '' @ itemVar @ '' in '' @ arrayVar @ '' %}'' @ rest)"
    by (simp add: spaces0_def)
  have l2: "lit ''for'' (''for '' @ itemVar @ '' in '' @ arrayVar @ '' %}'' @ rest) =
      Some (CHR '' '' # itemVar @ CHR '' '' # ''in '' @ arrayVar @ '' %}'' @ rest)"
    by (simp add: lit_def)
  have s3: "spaces1 (CHR '' '' # ''in '' @ arrayVar @ '' %}'' @ rest) =
      Some (''in '' @ arrayVar @ '' %}'' @ rest)"
    by (simp add: spaces1_def)
  have l3: "lit ''in'' (''in '' @ arrayVar @ '' %}'' @ rest) =
      Some (CHR '' '' # arrayVar @ CHR '' '' # ''%}'' @ rest)"
    by (simp add: lit_def)
  have s4: "spaces0 (CHR '' '' # ''%}'' @ rest) = Some (''%}'' @ rest)"
    by (simp add: spaces0_def)
  have l4: "lit ''%}'' (''%}'' @ rest) = Some rest"
    by (simp add: lit_def)
  show ?thesis
    unfolding match_for_open_def
    by (simp only: l1 s0 l2 s1 w1 s3 l3 s2 w2 s4 l4 Option.bind.simps prod.case)
qed

lemma match_close_tag: "match_close ''endfor'' (''{% endfor %}'' @ post) = Some post"
  by (simp add: match_close_def lit_def spaces0_def)

lemma find_close_body:
  assumes "no_match (match_close ''endfor'') body"
  shows "find_close ''endfor'' (body @ ''{% endfor %}'' @ post) = Some (body, post)"
  using assms
proof (induction body)
  case Nil
  have "find_close ''endfor'' (CHR ''{'' # ''% endfor %}'' @ post) = Some ([], post)"
    using match_close_tag [of post] by simp
  then show ?case by simp
next
  case (Cons c cs)
  have e: "CHR ''{'' \<notin> set ''endfor''" by simp
  have "match_close ''endfor'' ((c # cs) @ CHR ''{'' # ''% endfor %}'' @ post) =
      map_option (\<lambda>r. r @ CHR ''{'' # ''% endfor %}'' @ post) (match_close ''endfor'' (c # cs))"
    by (rule match_close_extend [OF e]) simp
  with Cons.prems have "match_close ''endfor'' (c # cs @ ''{% endfor %}'' @ post) = None"
    by simp
  moreover from Cons have "find_close ''endfor'' (cs @ ''{% endfor %}'' @ post) = Some (cs, post)"
    by simp
  ultimately show ?case
    by simp
qed


lemma match_for_block_tag:
  assumes "itemVar \<noteq> []" and "list_all is_word_char itemVar"
    and "arrayVar \<noteq> []" and "list_all is_word_char arrayVar"
    and "no_match (match_close ''endfor'') body"
  shows "match_for_block
      (''{% for '' @ itemVar @ '' in '' @ arrayVar @ '' %}'' @ body @ ''{% endfor %}'' @ post) =
     Some (itemVar, arrayVar, body, post)"
  using match_for_open_tag [OF assms(1-4), of "body @ ''{% endfor %}'' @ post"]
    find_close_body [OF assms(5), of post]
  by (simp add: match_for_block_def)

lemma match_for_block_extend_None:
  assumes "match_for_open (c # cs) = None"
  shows "match_for_block (c # cs @ CHR ''{'' # z) = None"
proof -
  have "match_for_open ((c # cs) @ CHR ''{'' # z) =
      map_option (\<lambda>(i, a, r). (i, a, r @ CHR ''{'' # z)) (match_for_open (c # cs))"
    by (rule match_for_open_extend) simp
  with assms show ?thesis
    by (simp add: match_for_block_def)
qed

lemma match_close_Nil: "match_close kw [] = None"
  by (simp add: match_close_def lit_def)

lemma find_close_extend:
  assumes "CHR ''{'' \<notin> set kw" and "find_close kw s = Some (inner, rest)"
  shows "find_close kw (s @ CHR ''{'' # z) = Some (inner, rest @ CHR ''{'' # z)"
  using assms(2)
proof (induction s arbitrary: inner)
  case Nil
  then show ?case
    by (simp add: match_close_Nil)
next
  case (Cons c cs)
  have ext: "match_close kw ((c # cs) @ CHR ''{'' # z) =
      map_option (\<lambda>r. r @ CHR ''{'' # z) (match_close kw (c # cs))"
    by (rule match_close_extend [OF assms(1)]) simp
  show ?case
  proof (cases "match_close kw (c # cs)")
    case (Some r)
    with Cons.prems have "inner = []" and "rest = r"
      by simp_all
    with Some ext show ?thesis
      by simp
  next
    case None
    with Cons.prems obtain inner' where i: "inner = c # inner'"
      and f: "find_close kw cs = Some (inner', rest)"
      by (auto split: option.splits)
    from Cons.IH [OF f] have "find_close kw (cs @ CHR ''{'' # z) = Some (inner', rest @ CHR ''{'' # z)" .
    with None ext i show ?thesis
      by simp
  qed
qed

lemma match_for_block_extend_Some:
  assumes "match_for_open (c # cs) = Some (i, a, r)"
    and "find_close ''endfor'' r = Some (content, rest)"
  shows "match_for_block (c # cs @ CHR ''{'' # z) = Some (i, a, content, rest @ CHR ''{'' # z)"
proof -
  have "match_for_open ((c # cs) @ CHR ''{'' # z) =
      map_option (\<lambda>(i, a, r). (i, a, r @ CHR ''{'' # z)) (match_for_open (c # cs))"
    by (rule match_for_open_extend) simp
  with assms(1) have o: "match_for_open (c # cs @ CHR ''{'' # z) = Some (i, a, r @ CHR ''{'' # z)"
    by simp
  have e: "CHR ''{'' \<notin> set ''endfor''" by simp
  have "find_close ''endfor'' (r @ CHR ''{'' # z) = Some (content, rest @ CHR ''{'' # z)"
    by (rule find_close_extend [OF e assms(2)])
  with o show ?thesis
    by (simp add: match_for_block_def)
qed

text \<open>
  Where the loop blocks of a text are closed, the loop pass treats the text and what
  follows it (from a brace on) separately.
\<close>

lemma subst_fors_prefix:
  assumes "blocks_closed pre"
  shows "subst_fors h data (pre @ CHR ''{'' # z) =
     cat (subst_fors h data pre) (subst_fors h data (CHR ''{'' # z))"
  using assms
proof (induction pre rule: blocks_closed.induct)
  case 1
  show ?case by simp
next
  case (2 c cs)
  show ?case
  proof (cases "match_for_open (c # cs)")
    case None
    then have n: "match_for_block (c # cs @ CHR ''{'' # z) = None"
      by (rule match_for_block_extend_None)
    from None have n': "match_for_block (c # cs) = None"
      by (simp add: match_for_block_def)
    from None "2.prems" have "blocks_closed cs"
      by simp
    with None "2.IH"(1) have ih: "subst_fors h data (cs @ CHR ''{'' # z) =
        cat (subst_fors h data cs) (subst_fors h data (CHR ''{'' # z))"
      by simp
    have "subst_fors h data (c # cs @ CHR ''{'' # z) =
        cat (Inr [c]) (subst_fors h data (cs @ CHR ''{'' # z))"
      by (simp only: subst_fors.simps n option.case)
    moreover have "subst_fors h data (c # cs) = cat (Inr [c]) (subst_fors h data cs)"
      by (simp only: subst_fors.simps n' option.case)
    ultimately show ?thesis
      by (simp add: ih cat_assoc)
  next
    case (Some x)
    obtain i a r where x: "x = (i, a, r)" by (cases x)
    note o = Some [unfolded x]
    show ?thesis
    proof (cases "find_close ''endfor'' r")
      case None
      with o "2.prems" show ?thesis
        by simp
    next
      case (Some y)
      obtain content rest where y: "y = (content, rest)" by (cases y)
      note f = Some [unfolded y]
      from o f "2.prems" have "blocks_closed rest"
        by simp
      with "2.IH"(2) [OF o refl refl f refl] have ih:
        "subst_fors h data (rest @ CHR ''{'' # z) =
          cat (subst_fors h data rest) (subst_fors h data (CHR ''{'' # z))"
        by simp
      have m: "match_for_block (c # cs @ CHR ''{'' # z) =
          Some (i, a, content, rest @ CHR ''{'' # z)"
        by (rule match_for_block_extend_Some [OF o f])
      have m': "match_for_block (c # cs) = Some (i, a, content, rest)"
        using o f by (simp add: match_for_block_def)
      have "subst_fors h data (c # cs @ CHR ''{'' # z) =
          cat (for_callback h data i a content) (subst_fors h data (rest @ CHR ''{'' # z))"
        by (simp only: subst_fors.simps m option.case prod.case)
      moreover have "subst_fors h data (c # cs) =
          cat (for_callback h data i a content) (subst_fors h data rest)"
        by (simp only: subst_fors.simps m' option.case prod.case)
      ultimately show ?thesis
        by (simp add: ih cat_assoc)
    qed
  qed
qed

lemma subst_fors_block:
  assumes "itemVar \<noteq> []" and "list_all is_word_char itemVar"
    and "arrayVar \<noteq> []" and "list_all is_word_char arrayVar"
    and "blocks_closed pre"
    and "no_match (match_close ''endfor'') body"
  shows "subst_fors h data
      (pre @ ''{% for '' @ itemVar @ '' in '' @ arrayVar @ '' %}'' @ body @ ''{% endfor %}'' @ post) =
     cat (subst_fors h data pre)
       (cat (for_callback h data itemVar arrayVar body) (subst_fors h data post))"
proof -
  define blk where
    "blk = ''% for '' @ itemVar @ '' in '' @ arrayVar @ '' %}'' @ body @ ''{% endfor %}'' @ post"
  have t: "CHR ''{'' # blk =
      ''{% for '' @ itemVar @ '' in '' @ arrayVar @ '' %}'' @ body @ ''{% endfor %}'' @ post"
    by (simp add: blk_def)
  have m: "match_for_block (CHR ''{'' # blk) = Some (itemVar, arrayVar, body, post)"
    using match_for_block_tag [OF assms(1-4,6), of post] by (simp add: blk_def)
  have b: "subst_fors h data (CHR ''{'' # blk) =
      cat (for_callback h data itemVar arrayVar body) (subst_fors h data post)"
    by (simp only: subst_fors.simps m option.case prod.case)
  have p: "subst_fors h data (pre @ CHR ''{'' # blk) =
      cat (subst_fors h data pre) (subst_fors h data (CHR ''{'' # blk))"
    by (rule subst_fors_prefix [OF assms(5)])
  have "subst_fors h data (pre @ CHR ''{'' # blk) =
      cat (subst_fors h data pre)
        (cat (for_callback h data itemVar arrayVar body) (subst_fors h data post))"
    by (simp only: p b)
  then show ?thesis
    by (simp only: t)
qed

lemma no_match_blocks_closed: "no_match match_for_open s \<Longrightarrow> blocks_closed s"
  by (induction s) simp_all

lemma subst_fors_no_match: "no_match match_for_open s \<Longrightarrow> subst_fors h data s = Inr s"
  by (induction s) (simp_all add: match_for_block_def)

subsection \<open>The item pass\<close>

lemma match_item_var_open: "match_item_var v (CHR ''{'' # CHR ''{'' # r) = item_tail v r"
  by (simp add: match_item_var_def lit_open item_tail_def)

lemma word_no_brace: "list_all is_word_char v \<Longrightarrow> CHR ''{'' \<notin> set v"
  by (auto simp: list_all_iff)

lemma item_tail_extend:
  assumes "list_all is_word_char v"
  shows "item_tail v (r @ CHR ''{'' # z) =
     map_option (\<lambda>(k, x). (k, x @ CHR ''{'' # z)) (item_tail v r)"
proof -
  have pc: "CHR ''{'' \<notin> set ''.''" "CHR ''{'' \<notin> set ''}}''"
    by simp_all
  show ?thesis
    unfolding item_tail_def
    by (simp add: lit_extend [OF word_no_brace [OF assms]] lit_extend [OF pc(1)]
        lit_extend [OF pc(2)] word_extend bind_map_option map_option_bind comp_def split_beta)
qed

lemma item_tail_brace:
  assumes "v \<noteq> []" and "list_all is_word_char v"
  shows "item_tail v (CHR ''{'' # z) = None"
proof -
  obtain a w where v: "v = a # w" using assms(1) by (cases v) auto
  with assms(2) have "a \<noteq> CHR ''{''" by auto
  then have "lit v (CHR ''{'' # z) = None"
    by (simp add: lit_def v)
  then show ?thesis
    by (simp add: item_tail_def)
qed

lemma match_item_var_extend:
  assumes "p \<noteq> []" and "v \<noteq> []" and "list_all is_word_char v"
  shows "match_item_var v (p @ ''{{'' @ z) =
     map_option (\<lambda>(k, r). (k, r @ ''{{'' @ z)) (match_item_var v p)"
proof (cases p)
  case Nil
  with assms show ?thesis by simp
next
  case (Cons c1 p1)
  note p = Cons
  show ?thesis
  proof (cases p1)
    case Nil
    show ?thesis
    proof (cases "c1 = CHR ''{''")
      case True
      then show ?thesis
        by (simp add: p Nil match_item_var_open item_tail_brace [OF assms(2,3)])
          (simp add: match_item_var_def lit_open_short)
    next
      case False
      then show ?thesis
        by (simp add: p Nil match_item_var_def lit_open_None lit_open_short)
    qed
  next
    case (Cons c2 r)
    show ?thesis
    proof (cases "c1 = CHR ''{'' \<and> c2 = CHR ''{''")
      case False
      then show ?thesis
        by (simp add: p Cons match_item_var_def lit_open_None)
    next
      case True
      then show ?thesis
        by (simp add: p Cons match_item_var_open item_tail_extend [OF assms(3)])
    qed
  qed
qed

lemma lit_prefix: "lit p (p @ r) = Some r"
  by (simp add: lit_def)

lemma match_item_var_token:
  assumes "field \<noteq> []" and "list_all is_word_char field"
  shows "match_item_var v (''{{'' @ v @ ''.'' @ field @ ''}}'' @ post) = Some (field, post)"
proof -
  have w: "word (field @ CHR ''}'' # CHR ''}'' # post) = Some (field, CHR ''}'' # CHR ''}'' # post)"
    by (rule word_token [OF assms]) simp
  have l2: "lit v (v @ CHR ''.'' # field @ CHR ''}'' # CHR ''}'' # post) =
      Some (CHR ''.'' # field @ CHR ''}'' # CHR ''}'' # post)"
    by (rule lit_prefix)
  have l3: "lit ''.'' (CHR ''.'' # field @ CHR ''}'' # CHR ''}'' # post) =
      Some (field @ CHR ''}'' # CHR ''}'' # post)"
    by (simp add: lit_def)
  have l4: "lit ''}}'' (CHR ''}'' # CHR ''}'' # post) = Some post"
    by (simp add: lit_def)
  show ?thesis
    by (simp add: match_item_var_open item_tail_def l2 l3 w l4)
qed

lemma subst_item_token:
  assumes "v \<noteq> []" and "list_all is_word_char v"
    and "field \<noteq> []" and "list_all is_word_char field"
  shows "subst_item h v item (pre @ ''{{'' @ v @ ''.'' @ field @ ''}}'' @ post) =
     cat (subst_item h v item pre) (cat (item_callback h item field) (subst_item h v item post))"
proof (induction "length pre" arbitrary: pre rule: less_induct)
  case less
  show ?case
  proof (cases pre)
    case Nil
    have "subst_item h v item (CHR ''{'' # CHR ''{'' # v @ ''.'' @ field @ ''}}'' @ post) =
        cat (item_callback h item field) (subst_item h v item post)"
      using match_item_var_token [OF assms(3,4), of v post] by simp
    then show ?thesis
      by (simp add: Nil)
  next
    case (Cons c cs)
    have ext: "match_item_var v ((c # cs) @ ''{{'' @ v @ ''.'' @ field @ ''}}'' @ post) =
        map_option (\<lambda>(k, r). (k, r @ ''{{'' @ v @ ''.'' @ field @ ''}}'' @ post))
          (match_item_var v (c # cs))"
      by (rule match_item_var_extend [OF _ assms(1,2)]) simp
    show ?thesis
    proof (cases "match_item_var v (c # cs)")
      case None
      with ext have n: "match_item_var v (c # cs @ ''{{'' @ v @ ''.'' @ field @ ''}}'' @ post) = None"
        by simp
      have ih: "subst_item h v item (cs @ ''{{'' @ v @ ''.'' @ field @ ''}}'' @ post) =
          cat (subst_item h v item cs)
            (cat (item_callback h item field) (subst_item h v item post))"
        by (rule less) (simp add: Cons)
      have l: "subst_item h v item (c # cs @ ''{{'' @ v @ ''.'' @ field @ ''}}'' @ post) =
          cat (Inr [c]) (subst_item h v item (cs @ ''{{'' @ v @ ''.'' @ field @ ''}}'' @ post))"
        by (simp only: subst_item.simps n option.case)
      have r: "subst_item h v item (c # cs) = cat (Inr [c]) (subst_item h v item cs)"
        by (simp only: subst_item.simps None option.case)
      show ?thesis
        using l r ih by (simp add: Cons cat_assoc)
    next
      case (Some a)
      obtain k rest where a: "a = (k, rest)" by (cases a)
      from Some a ext have
        m: "match_item_var v (c # cs @ ''{{'' @ v @ ''.'' @ field @ ''}}'' @ post) =
          Some (k, rest @ ''{{'' @ v @ ''.'' @ field @ ''}}'' @ post)"
        by simp
      from Some a have "length rest < length (c # cs)"
        by (auto dest: match_item_var_length)
      then have ih: "subst_item h v item (rest @ ''{{'' @ v @ ''.'' @ field @ ''}}'' @ post) =
          cat (subst_item h v item rest)
            (cat (item_callback h item field) (subst_item h v item post))"
        by (intro less) (simp add: Cons)
      have l: "subst_item h v item (c # cs @ ''{{'' @ v @ ''.'' @ field @ ''}}'' @ post) =
          cat (item_callback h item k)
            (subst_item h v item (rest @ ''{{'' @ v @ ''.'' @ field @ ''}}'' @ post))"
        by (simp only: subst_item.simps m option.case prod.case)
      have r: "subst_item h v item (c # cs) =
          cat (item_callback h item k) (subst_item h v item rest)"
        by (simp only: subst_item.simps Some a option.case prod.case)
      show ?thesis
        using l r ih by (simp add: Cons cat_assoc)
    qed
  qed
qed

section \<open>Claims about the template engine\<close>

lemmas tpl_eval = render_def match_var_def match_if_block_def match_if_open_def match_close_def
  match_for_block_def match_for_open_def match_item_var_def for_callback_def if_callback_def
  item_callback_def lit_def spaces0_def spaces1_def word_def is_word_char_def is_space_def
  or_empty_def js_get_def own_def inherited_def object_prototype_keys_def native_name_def
  show_int_def

text \<open>
  C2, as the code has it. In every template, at every place, the variable pass replaces
  a token \<^verbatim>\<open>{{name}}\<close> (\<open>name\<close> a word) by the string form of \<^verbatim>\<open>context[name]\<close> when that
  value is truthy, and by the empty string when it is falsy (\<^verbatim>\<open>0\<close>, \<^verbatim>\<open>false\<close>, \<^verbatim>\<open>''\<close>,
  \<^verbatim>\<open>null\<close> or \<^verbatim>\<open>undefined\<close>). \<^verbatim>\<open>context[name]\<close> is the own property when the key is present.
  When the key is absent it is the member that the context inherits under this name
  from \<^verbatim>\<open>Object.prototype\<close>, which is truthy: a native function (as for \<^verbatim>\<open>toString\<close> or
  \<^verbatim>\<open>constructor\<close>) or, for \<^verbatim>\<open>__proto__\<close>, the prototype itself; it is \<^verbatim>\<open>undefined\<close> when the
  name is none of these, and only then an absent key gives the empty string. When the
  string conversion of the value throws (a plain object with an own property
  \<^verbatim>\<open>toString\<close>, or an array that holds one), the pass fails with that \<^verbatim>\<open>TypeError\<close>, and
  so does \<^verbatim>\<open>render\<close>. The text before and the text behind the token are processed as they
  are on their own. In particular \<^verbatim>\<open>render("{{a}}", {a: "x"})\<close> is \<^verbatim>\<open>"x"\<close> and
  \<^verbatim>\<open>render("{{missing}}", {})\<close> is \<^verbatim>\<open>""\<close>.
\<close>

theorem variable_pass_replaces_token:
  assumes "name \<noteq> []" and "list_all is_word_char name"
  shows "subst_vars h data (pre @ ''{{'' @ name @ ''}}'' @ post) =
      cat_all [subst_vars h data pre,
               if truthy (js_get data name) then any_to_string h (js_get data name) else Inr [],
               subst_vars h data post]
    \<and> (own data name = Some v \<longrightarrow> js_get data name = Data v)
    \<and> (own data name = None \<and> name \<in> set object_prototype_keys \<longrightarrow>
        js_get data name = Native (native_name name))
    \<and> (own data name = None \<and> name = ''__proto__'' \<longrightarrow> js_get data name = Proto KObject)
    \<and> (own data name = None \<and> name \<notin> set object_prototype_keys \<and> name \<noteq> ''__proto__'' \<longrightarrow>
        subst_vars h data (pre @ ''{{'' @ name @ ''}}'' @ post) =
          cat_all [subst_vars h data pre, subst_vars h data post])
    \<and> (truthy (js_get data name) \<and> any_to_string h (js_get data name) = Inl TypeError \<longrightarrow>
        subst_vars h data (pre @ ''{{'' @ name @ ''}}'' @ post) = Inl TypeError)
    \<and> (own ob ''toString'' \<noteq> None \<longrightarrow>
        truthy (Data (VObj ob)) \<and> any_to_string h (Data (VObj ob)) = Inl TypeError)
    \<and> (VObj ob \<in> set xs \<and> own ob ''toString'' \<noteq> None \<longrightarrow>
        truthy (Data (VArr xs)) \<and> any_to_string h (Data (VArr xs)) = Inl TypeError)
    \<and> (truthy (Data x) \<longleftrightarrow>
        x \<noteq> VUndef \<and> x \<noteq> VNull \<and> x \<noteq> VBool False \<and> x \<noteq> VNum 0 \<and> x \<noteq> VStr [])
    \<and> (subst_vars h data template = Inl TypeError \<longrightarrow> render h template data = Inl TypeError)
    \<and> render h ''{{a}}'' [(''a'', VStr ''x'')] = Inr ''x''
    \<and> render h ''{{missing}}'' [] = Inr []"
proof -
  let ?t = "pre @ ''{{'' @ name @ ''}}'' @ post"
  have tok: "subst_vars h data ?t =
      cat_all [subst_vars h data pre,
               if truthy (js_get data name) then any_to_string h (js_get data name) else Inr [],
               subst_vars h data post]"
    using subst_vars_token [OF assms, of h data pre post] by (simp add: or_empty_def)
  have present: "own data name = Some v \<longrightarrow> js_get data name = Data v"
    by (simp add: js_get_def)
  have native: "own data name = None \<and> name \<in> set object_prototype_keys \<longrightarrow>
        js_get data name = Native (native_name name)"
    by (auto simp: js_get_def inherited_def object_prototype_keys_def)
  have proto: "own data name = None \<and> name = ''__proto__'' \<longrightarrow> js_get data name = Proto KObject"
    by (auto simp: js_get_def inherited_def)
  have absent: "own data name = None \<and> name \<notin> set object_prototype_keys \<and> name \<noteq> ''__proto__'' \<longrightarrow>
        subst_vars h data ?t = cat_all [subst_vars h data pre, subst_vars h data post]"
  proof
    assume "own data name = None \<and> name \<notin> set object_prototype_keys \<and> name \<noteq> ''__proto__''"
    then have "js_get data name = Data VUndef"
      by (simp add: js_get_def inherited_def)
    with tok show "subst_vars h data ?t = cat_all [subst_vars h data pre, subst_vars h data post]"
      by simp
  qed
  have throws: "truthy (js_get data name) \<and> any_to_string h (js_get data name) = Inl TypeError \<longrightarrow>
        subst_vars h data ?t = Inl TypeError"
  proof
    assume "truthy (js_get data name) \<and> any_to_string h (js_get data name) = Inl TypeError"
    with tok show "subst_vars h data ?t = Inl TypeError"
      by (simp add: cat_Inl)
  qed
  have objs: "own ob ''toString'' \<noteq> None \<longrightarrow>
        truthy (Data (VObj ob)) \<and> any_to_string h (Data (VObj ob)) = Inl TypeError"
    by (simp add: to_string_own_toString)
  have arrs: "VObj ob \<in> set xs \<and> own ob ''toString'' \<noteq> None \<longrightarrow>
        truthy (Data (VArr xs)) \<and> any_to_string h (Data (VArr xs)) = Inl TypeError"
    using to_string_array_throws [of ob xs h] by simp
  have falsy: "truthy (Data x) \<longleftrightarrow>
        x \<noteq> VUndef \<and> x \<noteq> VNull \<and> x \<noteq> VBool False \<and> x \<noteq> VNum 0 \<and> x \<noteq> VStr []"
    by (cases x) simp_all
  have rej: "subst_vars h data template = Inl TypeError \<longrightarrow> render h template data = Inl TypeError"
    by (simp add: render_def)
  have r1: "render h ''{{a}}'' [(''a'', VStr ''x'')] = Inr ''x''"
    by (simp add: tpl_eval)
  have r2: "render h ''{{missing}}'' [] = Inr []"
    by (simp add: tpl_eval)
  from tok present native proto absent throws objs arrs falsy rej r1 r2 show ?thesis
    by (intro conjI)
qed

theorem variable_pass_replaces_token_witness:
  "\<forall>h. subst_vars h [(''title'', VStr ''Docs'')] (''<h1>'' @ ''{{'' @ ''title'' @ ''}}'' @ ''</h1>'')
         = Inr ''<h1>Docs</h1>''
       \<and> subst_vars h [] (''<h1>'' @ ''{{'' @ ''title'' @ ''}}'' @ ''</h1>'') = Inr ''<h1></h1>''"
proof
  fix h :: host
  define data :: obj where "data = [(''title'', VStr ''Docs'')]"
  have h1: "''title'' \<noteq> []" and h2: "list_all is_word_char ''title''"
    by (simp_all add: is_word_char_def)
  have a: "subst_vars h ob ''<h1>'' = Inr ''<h1>''"
    and b: "subst_vars h ob ''</h1>'' = Inr ''</h1>''" for ob
    by (simp_all add: match_var_def lit_def)
  have v: "js_get data ''title'' = Data (VStr ''Docs'')"
    by (simp add: data_def js_get_def own_def)
  have o': "own [] ''title'' = None \<and> ''title'' \<notin> set object_prototype_keys
      \<and> ''title'' \<noteq> ''__proto__''"
    by (simp add: own_def object_prototype_keys_def)
  note th = variable_pass_replaces_token [OF h1 h2]
  from th [where h = h and data = data and pre = "''<h1>''" and post = "''</h1>''"]
  have "subst_vars h data (''<h1>'' @ ''{{'' @ ''title'' @ ''}}'' @ ''</h1>'') =
      cat_all [subst_vars h data ''<h1>'',
               if truthy (js_get data ''title'') then any_to_string h (js_get data ''title'')
               else Inr [],
               subst_vars h data ''</h1>'']"
    by (rule conjunct1)
  then have 1: "subst_vars h data (''<h1>'' @ ''{{'' @ ''title'' @ ''}}'' @ ''</h1>'') =
      Inr ''<h1>Docs</h1>''"
    by (simp only: a b v) simp
  from th [where h = h and data = "[]" and pre = "''<h1>''" and post = "''</h1>''"]
  have "own [] ''title'' = None \<and> ''title'' \<notin> set object_prototype_keys
        \<and> ''title'' \<noteq> ''__proto__'' \<longrightarrow>
      subst_vars h [] (''<h1>'' @ ''{{'' @ ''title'' @ ''}}'' @ ''</h1>'') =
        cat_all [subst_vars h [] ''<h1>'', subst_vars h [] ''</h1>'']"
    by (rule conjunct2 [THEN conjunct2, THEN conjunct2, THEN conjunct2, THEN conjunct1])
  with o' have "subst_vars h [] (''<h1>'' @ ''{{'' @ ''title'' @ ''}}'' @ ''</h1>'') =
        cat_all [subst_vars h [] ''<h1>'', subst_vars h [] ''</h1>'']"
    by (rule rev_mp)
  then have 2: "subst_vars h [] (''<h1>'' @ ''{{'' @ ''title'' @ ''}}'' @ ''</h1>'') =
      Inr ''<h1></h1>''"
    by (simp only: a b) simp
  from 1 2 show "subst_vars h [(''title'', VStr ''Docs'')]
          (''<h1>'' @ ''{{'' @ ''title'' @ ''}}'' @ ''</h1>'') = Inr ''<h1>Docs</h1>''
       \<and> subst_vars h [] (''<h1>'' @ ''{{'' @ ''title'' @ ''}}'' @ ''</h1>'') = Inr ''<h1></h1>''"
    unfolding data_def by (rule conjI)
qed

text \<open>
  C2 as stated fails. With the key \<^verbatim>\<open>a\<close> present and holding the number 0, whose string
  form is \<^verbatim>\<open>"0"\<close>, \<^verbatim>\<open>render("{{a}}", {a: 0})\<close> is the empty string. With the key
  \<^verbatim>\<open>toString\<close> absent, \<^verbatim>\<open>render("{{toString}}", {})\<close> is not the empty string but the text
  of the inherited function.
\<close>

theorem variable_falsy_counterexample:
  "\<forall>h. own [(''a'', VNum 0)] ''a'' = Some (VNum 0)
       \<and> to_string h (VNum 0) = Inr ''0''
       \<and> subst_vars h [(''a'', VNum 0)] ''{{a}}'' = Inr []
       \<and> render h ''{{a}}'' [(''a'', VNum 0)] = Inr []
       \<and> own [] ''toString'' = None
       \<and> render h ''{{toString}}'' [] = Inr ''function toString() { [native code] }''"
  by (simp add: tpl_eval)

text \<open>
  C7, as the code has it. \<^verbatim>\<open>render\<close> applies the loop pass to the text that the variable
  pass, unless it fails, and the conditional pass make of the template; that is the
  template itself when it holds no variable token and no conditional block. Take, in a
  text that the loop pass is applied to, a loop block
  \<^verbatim>\<open>{% for item in list %} body {% endfor %}\<close> whose body holds no closing for-tag and
  before which every loop block that the scan has opened is closed. When
  \<^verbatim>\<open>context[list]\<close> is an array, the pass replaces the block by the results of the
  iterations, one for each element of the array, whatever the elements are, and in their
  order. When \<^verbatim>\<open>context[list]\<close> is falsy, as it is when the key is absent and names no
  member inherited from \<^verbatim>\<open>Object.prototype\<close>, the block is replaced by nothing. When it is
  truthy and not an array, as it is when the key is absent and does name an inherited
  member, the pass fails with a \<^verbatim>\<open>TypeError\<close>. In an iteration every token
  \<^verbatim>\<open>{{item.field}}\<close> of the body is replaced by the string form of \<^verbatim>\<open>item[field]\<close> when that
  value is truthy and by the empty string when it is falsy; at such a token the
  iteration fails with a \<^verbatim>\<open>TypeError\<close> when the element is \<^verbatim>\<open>null\<close> or \<^verbatim>\<open>undefined\<close>, or
  when the string conversion throws. An iteration that fails makes the pass fail. The
  text before and the text behind the block, and in the body the text before and behind
  a token, are processed as they are on their own. In particular
  \<^verbatim>\<open>render("{% for x in items %}{{x.n}},{% endfor %}", {items: [{n: 1}, {n: 2}]})\<close> is
  \<^verbatim>\<open>"1,2,"\<close>.
\<close>

theorem loop_pass_expands_block:
  assumes "itemVar \<noteq> []" and "list_all is_word_char itemVar"
    and "arrayVar \<noteq> []" and "list_all is_word_char arrayVar"
    and "blocks_closed pre"
    and "no_match (match_close ''endfor'') body"
    and "field \<noteq> []" and "list_all is_word_char field"
  shows "(js_get data arrayVar = Data (VArr items) \<longrightarrow>
        subst_fors h data
          (pre @ ''{% for '' @ itemVar @ '' in '' @ arrayVar @ '' %}'' @ body @ ''{% endfor %}'' @ post) =
        cat_all [subst_fors h data pre,
                 cat_all (map (\<lambda>item. subst_item h itemVar item body) items),
                 subst_fors h data post])
    \<and> (\<not> truthy (js_get data arrayVar) \<longrightarrow>
        subst_fors h data
          (pre @ ''{% for '' @ itemVar @ '' in '' @ arrayVar @ '' %}'' @ body @ ''{% endfor %}'' @ post) =
        cat_all [subst_fors h data pre, subst_fors h data post])
    \<and> (own data arrayVar = None \<and> arrayVar \<notin> set object_prototype_keys
          \<and> arrayVar \<noteq> ''__proto__'' \<longrightarrow>
        \<not> truthy (js_get data arrayVar))
    \<and> (truthy (js_get data arrayVar) \<and> (\<forall>xs. js_get data arrayVar \<noteq> Data (VArr xs)) \<longrightarrow>
        subst_fors h data
          (pre @ ''{% for '' @ itemVar @ '' in '' @ arrayVar @ '' %}'' @ body @ ''{% endfor %}'' @ post) =
        Inl TypeError)
    \<and> (own data arrayVar = None
          \<and> (arrayVar \<in> set object_prototype_keys \<or> arrayVar = ''__proto__'') \<longrightarrow>
        truthy (js_get data arrayVar) \<and> (\<forall>xs. js_get data arrayVar \<noteq> Data (VArr xs)))
    \<and> subst_item h itemVar item (b1 @ ''{{'' @ itemVar @ ''.'' @ field @ ''}}'' @ b2) =
        cat_all [subst_item h itemVar item b1,
                 item_callback h item field,
                 subst_item h itemVar item b2]
    \<and> (item = VUndef \<or> item = VNull \<longrightarrow> item_callback h item field = Inl TypeError)
    \<and> (get_prop h item field = Inr v \<longrightarrow>
        item_callback h item field = (if truthy v then any_to_string h v else Inr []))
    \<and> render h template data =
        (case subst_vars h data template of
           Inl e \<Rightarrow> Inl e
         | Inr result \<Rightarrow> subst_fors h data (subst_ifs data result))
    \<and> (no_match match_var template \<and> no_match match_if_block template \<longrightarrow>
        render h template data = subst_fors h data template)
    \<and> render h ''{% for x in items %}{{x.n}},{% endfor %}''
        [(''items'', VArr [VObj [(''n'', VNum 1)], VObj [(''n'', VNum 2)]])] = Inr ''1,2,''"
proof -
  let ?t = "pre @ ''{% for '' @ itemVar @ '' in '' @ arrayVar @ '' %}'' @ body @ ''{% endfor %}'' @ post"
  note blk = subst_fors_block [OF assms(1-6), of h data post]
  have arr: "js_get data arrayVar = Data (VArr items) \<longrightarrow>
      subst_fors h data ?t =
        cat_all [subst_fors h data pre,
                 cat_all (map (\<lambda>item. subst_item h itemVar item body) items),
                 subst_fors h data post]"
  proof
    assume a: "js_get data arrayVar = Data (VArr items)"
    have "for_callback h data itemVar arrayVar body =
        cat_all (map (\<lambda>item. subst_item h itemVar item body) items)"
      by (simp add: for_callback_def a map_join_cat_all)
    with blk show "subst_fors h data ?t =
        cat_all [subst_fors h data pre,
                 cat_all (map (\<lambda>item. subst_item h itemVar item body) items),
                 subst_fors h data post]"
      by simp
  qed
  have falsy: "\<not> truthy (js_get data arrayVar) \<longrightarrow>
      subst_fors h data ?t = cat_all [subst_fors h data pre, subst_fors h data post]"
  proof
    assume "\<not> truthy (js_get data arrayVar)"
    then have "for_callback h data itemVar arrayVar body = Inr []"
      by (simp add: for_callback_def)
    with blk show "subst_fors h data ?t = cat_all [subst_fors h data pre, subst_fors h data post]"
      by simp
  qed
  have absent: "own data arrayVar = None \<and> arrayVar \<notin> set object_prototype_keys
        \<and> arrayVar \<noteq> ''__proto__'' \<longrightarrow> \<not> truthy (js_get data arrayVar)"
    by (simp add: js_get_def inherited_def)
  have other: "truthy (js_get data arrayVar) \<and> (\<forall>xs. js_get data arrayVar \<noteq> Data (VArr xs)) \<longrightarrow>
      subst_fors h data ?t = Inl TypeError"
  proof
    assume a: "truthy (js_get data arrayVar) \<and> (\<forall>xs. js_get data arrayVar \<noteq> Data (VArr xs))"
    have "for_callback h data itemVar arrayVar body = Inl TypeError"
    proof (cases "js_get data arrayVar")
      case (Data x)
      with a show ?thesis
        by (cases x) (simp_all add: for_callback_def)
    next
      case (Native f)
      then show ?thesis
        by (simp add: for_callback_def)
    next
      case (Proto k)
      then show ?thesis
        by (simp add: for_callback_def)
    qed
    with blk show "subst_fors h data ?t = Inl TypeError"
      by (simp add: cat_Inl)
  qed
  have inh: "own data arrayVar = None
        \<and> (arrayVar \<in> set object_prototype_keys \<or> arrayVar = ''__proto__'') \<longrightarrow>
      truthy (js_get data arrayVar) \<and> (\<forall>xs. js_get data arrayVar \<noteq> Data (VArr xs))"
    by (auto simp: js_get_def inherited_def)
  have tok: "subst_item h itemVar item (b1 @ ''{{'' @ itemVar @ ''.'' @ field @ ''}}'' @ b2) =
        cat_all [subst_item h itemVar item b1,
                 item_callback h item field,
                 subst_item h itemVar item b2]"
    using subst_item_token [OF assms(1,2,7,8), of h item b1 b2] by simp
  have nul: "item = VUndef \<or> item = VNull \<longrightarrow> item_callback h item field = Inl TypeError"
    by (auto simp: item_callback_def)
  have cb: "get_prop h item field = Inr v \<longrightarrow>
        item_callback h item field = (if truthy v then any_to_string h v else Inr [])"
    by (simp add: item_callback_def or_empty_def)
  have rd: "render h template data =
        (case subst_vars h data template of
           Inl e \<Rightarrow> Inl e
         | Inr result \<Rightarrow> subst_fors h data (subst_ifs data result))"
    by (simp add: render_def)
  have plain: "no_match match_var template \<and> no_match match_if_block template \<longrightarrow>
        render h template data = subst_fors h data template"
    by (simp add: render_def subst_vars_no_match subst_ifs_no_match)
  have ex: "render h ''{% for x in items %}{{x.n}},{% endfor %}''
        [(''items'', VArr [VObj [(''n'', VNum 1)], VObj [(''n'', VNum 2)]])] = Inr ''1,2,''"
    by (simp add: tpl_eval)
  from arr falsy absent other inh tok nul cb rd plain ex show ?thesis
    by (intro conjI)
qed

theorem loop_pass_expands_block_witness:
  "\<forall>h. subst_fors h
         [(''pages'', VArr [VObj [(''slug'', VStr ''core'')], VObj [(''slug'', VStr ''api'')]])]
         (''<ul>'' @ ''{% for '' @ ''page'' @ '' in '' @ ''pages'' @ '' %}''
           @ ''<li>{{page.slug}}</li>'' @ ''{% endfor %}'' @ ''</ul>'')
        = Inr ''<ul><li>core</li><li>api</li></ul>''
      \<and> subst_fors h []
         (''<ul>'' @ ''{% for '' @ ''page'' @ '' in '' @ ''pages'' @ '' %}''
           @ ''<li>{{page.slug}}</li>'' @ ''{% endfor %}'' @ ''</ul>'')
        = Inr ''<ul></ul>''
      \<and> subst_item h ''page'' (VStr ''core'')
         (''<li>'' @ ''{{'' @ ''page'' @ ''.'' @ ''length'' @ ''}}'' @ ''</li>'') = Inr ''<li>4</li>''"
proof
  fix h :: host
  define items :: "jsval list"
    where "items = [VObj [(''slug'', VStr ''core'')], VObj [(''slug'', VStr ''api'')]]"
  define data :: obj where "data = [(''pages'', VArr items)]"
  define body where "body = ''<li>{{page.slug}}</li>''"
  define tmpl where "tmpl = ''<ul>'' @ ''{% for '' @ ''page'' @ '' in '' @ ''pages'' @ '' %}''
        @ body @ ''{% endfor %}'' @ ''</ul>''"
  define tok where "tok = ''<li>'' @ ''{{'' @ ''page'' @ ''.'' @ ''slug'' @ ''}}'' @ ''</li>''"
  define tokl where "tokl = ''<li>'' @ ''{{'' @ ''page'' @ ''.'' @ ''length'' @ ''}}'' @ ''</li>''"
  have h1: "''page'' \<noteq> []" and h2: "list_all is_word_char ''page''"
    and h3: "''pages'' \<noteq> []" and h4: "list_all is_word_char ''pages''"
    and h7: "''slug'' \<noteq> []" and h8: "list_all is_word_char ''slug''"
    and h7': "''length'' \<noteq> []" and h8': "list_all is_word_char ''length''"
    by (simp_all add: is_word_char_def)
  have h5: "blocks_closed ''<ul>''"
    by (simp add: match_for_open_def lit_def)
  have h6: "no_match (match_close ''endfor'') body"
    by (simp add: body_def match_close_def lit_def)
  note th = loop_pass_expands_block [OF h1 h2 h3 h4 h5 h6 h7 h8]
  note thl = loop_pass_expands_block [OF h1 h2 h3 h4 h5 h6 h7' h8']
  have g: "js_get data ''pages'' = Data (VArr items)"
    by (simp add: data_def js_get_def own_def)
  have g': "\<not> truthy (js_get [] ''pages'')"
    by (simp add: js_get_def own_def inherited_def object_prototype_keys_def)
  have pre: "subst_fors h ob ''<ul>'' = Inr ''<ul>''"
    and post: "subst_fors h ob ''</ul>'' = Inr ''</ul>''" for ob
    by (simp_all add: match_for_block_def match_for_open_def lit_def)
  have l: "subst_item h ''page'' item ''<li>'' = Inr ''<li>''"
    and r: "subst_item h ''page'' item ''</li>'' = Inr ''</li>''" for item
    by (simp_all add: match_item_var_def lit_def)
  have c: "item_callback h (VObj [(''slug'', VStr s)]) ''slug'' = Inr s" for s
    by (simp add: item_callback_def or_empty_def js_get_def own_def)
  have cl: "item_callback h (VStr ''core'') ''length'' = Inr ''4''"
    by (simp add: item_callback_def or_empty_def show_int_def)
  have tk: "subst_item h ''page'' item tok =
      cat_all [subst_item h ''page'' item ''<li>'', item_callback h item ''slug'',
               subst_item h ''page'' item ''</li>'']" for item
  proof -
    from th [where h = h and item = item and ?b1.0 = "''<li>''" and ?b2.0 = "''</li>''"
        and data = data and items = items and post = "[]" and v = "Data VUndef"
        and template = "[]"]
    show ?thesis
      unfolding tok_def by (elim conjE)
  qed
  have tkl: "subst_item h ''page'' item tokl =
      cat_all [subst_item h ''page'' item ''<li>'', item_callback h item ''length'',
               subst_item h ''page'' item ''</li>'']" for item
  proof -
    from thl [where h = h and item = item and ?b1.0 = "''<li>''" and ?b2.0 = "''</li>''"
        and data = data and items = items and post = "[]" and v = "Data VUndef"
        and template = "[]"]
    show ?thesis
      unfolding tokl_def by (elim conjE)
  qed
  have bt: "body = tok"
    by (simp add: body_def tok_def)
  have i: "subst_item h ''page'' (VObj [(''slug'', VStr s)]) tok = Inr (''<li>'' @ s @ ''</li>'')"
    for s
    by (simp only: tk l r c) simp
  have 3: "subst_item h ''page'' (VStr ''core'') tokl = Inr ''<li>4</li>''"
    by (simp only: tkl l r cl) simp
  have 1: "subst_fors h data tmpl = Inr ''<ul><li>core</li><li>api</li></ul>''"
  proof -
    from th [where data = data and items = items and h = h and post = "''</ul>''"
        and item = VNull and ?b1.0 = "[]" and ?b2.0 = "[]" and v = "Data VUndef"
        and template = "[]"]
    have "js_get data ''pages'' = Data (VArr items) \<longrightarrow>
        subst_fors h data tmpl =
        cat_all [subst_fors h data ''<ul>'',
                 cat_all (map (\<lambda>item. subst_item h ''page'' item body) items),
                 subst_fors h data ''</ul>'']"
      unfolding tmpl_def by (rule conjunct1)
    with g have "subst_fors h data tmpl =
        cat_all [subst_fors h data ''<ul>'',
                 cat_all (map (\<lambda>item. subst_item h ''page'' item body) items),
                 subst_fors h data ''</ul>'']"
      by (rule rev_mp)
    then show ?thesis
      by (simp only: pre post items_def bt list.map i) simp
  qed
  have 2: "subst_fors h [] tmpl = Inr ''<ul></ul>''"
  proof -
    from th [where data = "[]" and items = items and h = h and post = "''</ul>''"
        and item = VNull and ?b1.0 = "[]" and ?b2.0 = "[]" and v = "Data VUndef"
        and template = "[]"]
    have "\<not> truthy (js_get [] ''pages'') \<longrightarrow>
        subst_fors h [] tmpl = cat_all [subst_fors h [] ''<ul>'', subst_fors h [] ''</ul>'']"
      unfolding tmpl_def by (rule conjunct2 [THEN conjunct1])
    with g' have "subst_fors h [] tmpl =
        cat_all [subst_fors h [] ''<ul>'', subst_fors h [] ''</ul>'']"
      by (rule rev_mp)
    then show ?thesis
      by (simp only: pre post) simp
  qed
  from 1 2 3 show "subst_fors h
         [(''pages'', VArr [VObj [(''slug'', VStr ''core'')], VObj [(''slug'', VStr ''api'')]])]
         (''<ul>'' @ ''{% for '' @ ''page'' @ '' in '' @ ''pages'' @ '' %}''
           @ ''<li>{{page.slug}}</li>'' @ ''{% endfor %}'' @ ''</ul>'')
        = Inr ''<ul><li>core</li><li>api</li></ul>''
      \<and> subst_fors h []
         (''<ul>'' @ ''{% for '' @ ''page'' @ '' in '' @ ''pages'' @ '' %}''
           @ ''<li>{{page.slug}}</li>'' @ ''{% endfor %}'' @ ''</ul>'')
        = Inr ''<ul></ul>''
      \<and> subst_item h ''page'' (VStr ''core'')
         (''<li>'' @ ''{{'' @ ''page'' @ ''.'' @ ''length'' @ ''}}'' @ ''</li>'') = Inr ''<li>4</li>''"
    unfolding data_def items_def tmpl_def tok_def tokl_def body_def by (intro conjI)
qed

text \<open>
  C7 as stated fails. For an element whose field \<^verbatim>\<open>n\<close> is the number 0, with string form
  \<^verbatim>\<open>"0"\<close>, the token \<^verbatim>\<open>{{x.n}}\<close> is replaced by the empty string, so
  \<^verbatim>\<open>render("{% for x in items %}{{x.n}},{% endfor %}", {items: [{n: 0}]})\<close> is \<^verbatim>\<open>","\<close>. With
  the key \<^verbatim>\<open>valueOf\<close> absent, the loop over it is not evaluated zero times:
  \<^verbatim>\<open>render("{% for x in valueOf %}a{% endfor %}", {})\<close> fails with a \<^verbatim>\<open>TypeError\<close>.
\<close>

theorem loop_falsy_field_counterexample:
  "\<forall>h. get_prop h (VObj [(''n'', VNum 0)]) ''n'' = Inr (Data (VNum 0))
       \<and> to_string h (VNum 0) = Inr ''0''
       \<and> render h ''{% for x in items %}{{x.n}},{% endfor %}''
            [(''items'', VArr [VObj [(''n'', VNum 0)]])] = Inr '',''
       \<and> own [] ''valueOf'' = None
       \<and> render h ''{% for x in valueOf %}a{% endfor %}'' [] = Inl TypeError"
  by (simp add: tpl_eval)

section \<open>Properties of the dispatcher\<close>

lemma run_body_works:
  "run_body mws r (map Work ws @ as) (i, tr) = run_body mws r as (i, tr @ map Did ws)"
  by (induction ws arbitrary: tr) simp_all

lemma run_body_only_works: "run_body mws r (map Work ws) (i, tr) = (i, tr @ map Did ws)"
  using run_body_works [of mws r ws "[]" i tr] by simp

lemma run_next_chain:
  "run_next (done @ map calls_once stages @ tail) r (length done, tr) =
     (case run_next (done @ map calls_once stages @ tail) r
             (length done + length stages, tr @ map Did (concat (map fst stages))) of
        (i, tr') \<Rightarrow> (i, tr' @ map Did (concat (rev (map snd stages)))))"
proof (induction stages arbitrary: "done" tr)
  case Nil
  show ?case by (simp split: prod.splits)
next
  case (Cons s ss)
  let ?mws = "done @ map calls_once (s # ss) @ tail"
  have mws: "?mws = (done @ [calls_once s]) @ map calls_once ss @ tail"
    by simp
  have nth: "?mws ! length done = calls_once s"
    by (simp add: nth_append)
  have lt: "length done < length ?mws"
    by simp
  have "run_next ?mws r (length done, tr) = run_body ?mws r (calls_once s) (Suc (length done), tr)"
    using lt nth by (simp add: run_next.simps del: append_Cons list.map)
  also have "\<dots> = run_body ?mws r (Next # map Work (snd s))
      (Suc (length done), tr @ map Did (fst s))"
    unfolding calls_once_def by (rule run_body_works)
  also have "\<dots> = run_body ?mws r (map Work (snd s))
      (run_next ?mws r (Suc (length done), tr @ map Did (fst s)))"
    by (simp only: run_body.simps)
  finally have step: "run_next ?mws r (length done, tr) =
      run_body ?mws r (map Work (snd s))
        (run_next ?mws r (Suc (length done), tr @ map Did (fst s)))" .
  have ih: "run_next ?mws r (Suc (length done), tr @ map Did (fst s)) =
     (case run_next ?mws r
             (Suc (length done) + length ss, (tr @ map Did (fst s)) @ map Did (concat (map fst ss))) of
        (i, tr') \<Rightarrow> (i, tr' @ map Did (concat (rev (map snd ss)))))"
    using Cons.IH [of "done @ [calls_once s]" "tr @ map Did (fst s)"]
    by (simp only: mws length_append list.size) simp
  obtain i tr' where res: "run_next ?mws r
      (Suc (length done) + length ss, (tr @ map Did (fst s)) @ map Did (concat (map fst ss))) = (i, tr')"
    by (cases "run_next ?mws r
      (Suc (length done) + length ss, (tr @ map Did (fst s)) @ map Did (concat (map fst ss)))")
  have res': "run_next ?mws r
      (length done + length (s # ss), tr @ map Did (concat (map fst (s # ss)))) = (i, tr')"
    using res by simp
  show ?case
    by (simp only: step ih res res' prod.case run_body_only_works) simp
qed


lemma run_next_end: "run_next mws r (length mws, tr) = (length mws, tr @ [Routed r])"
  by (simp add: run_next.simps)

lemma run_next_all_call_once:
  "run_next (map calls_once stages) r (0, []) =
     (length stages,
      map Did (concat (map fst stages)) @ [Routed r] @ map Did (concat (rev (map snd stages))))"
proof -
  have e: "run_next (map calls_once stages) r
      (length stages, map Did (concat (map fst stages))) =
      (length stages, map Did (concat (map fst stages)) @ [Routed r])"
    using run_next_end [of "map calls_once stages" r] by simp
  show ?thesis
    using run_next_chain [of "[]" stages "[]" r "[]"]
    by (simp add: e)
qed

lemma run_next_silent_stage:
  "run_next (map calls_once stages @ never_calls ws # others) r (0, []) =
     (Suc (length stages),
      map Did (concat (map fst stages)) @ map Did ws @ map Did (concat (rev (map snd stages))))"
proof -
  let ?mws = "map calls_once stages @ never_calls ws # others"
  have nth: "?mws ! length stages = never_calls ws"
    by (simp add: nth_append)
  have e: "run_next ?mws r (length stages, map Did (concat (map fst stages))) =
      (Suc (length stages), map Did (concat (map fst stages)) @ map Did ws)"
    using nth by (simp add: run_next.simps never_calls_def run_body_only_works del: append_Cons)
  show ?thesis
    using run_next_chain [of "[]" stages "never_calls ws # others" r "[]"]
    by (simp add: e)
qed

section \<open>Claims about the dispatcher\<close>

text \<open>
  C8, as the code has it. When every registered stage does some work, invokes its
  continuation once and then finishes, the trace of a request is: the work that the
  stages do before their continuation, in registration order; then the dispatch (the
  matched handler or the dispatcher's 404); then what the stages do after their
  continuation, innermost first. When the stages before some stage are of that kind and
  that stage never invokes its continuation, no dispatch occurs for the request,
  whatever stages are registered behind it.
\<close>

theorem middleware_chain_order:
  "(middleware srv = map calls_once stages \<longrightarrow>
      handleRequest srv m u =
        map Did (concat (map fst stages))
        @ [Routed (routeRequest srv (request_method m) (request_path u))]
        @ map Did (concat (rev (map snd stages))))
   \<and> (middleware srv = map calls_once stages @ never_calls ws # others \<longrightarrow>
      handleRequest srv m u =
        map Did (concat (map fst stages)) @ map Did ws @ map Did (concat (rev (map snd stages)))
      \<and> (\<forall>out. Routed out \<notin> set (handleRequest srv m u)))"
proof (intro conjI impI)
  assume a: "middleware srv = map calls_once stages"
  show "handleRequest srv m u =
        map Did (concat (map fst stages))
        @ [Routed (routeRequest srv (request_method m) (request_path u))]
        @ map Did (concat (rev (map snd stages)))"
  proof (cases "stages = []")
    case True
    then show ?thesis
      by (simp add: handleRequest_def a)
  next
    case False
    then show ?thesis
      by (simp add: handleRequest_def a run_next_all_call_once)
  qed
next
  assume a: "middleware srv = map calls_once stages @ never_calls ws # others"
  show t: "handleRequest srv m u =
        map Did (concat (map fst stages)) @ map Did ws @ map Did (concat (rev (map snd stages)))"
    by (simp add: handleRequest_def a run_next_silent_stage)
  show "\<forall>out. Routed out \<notin> set (handleRequest srv m u)"
    unfolding t by auto
qed

theorem middleware_chain_order_witness:
  "handleRequest
      (server_use (calls_once ([''c''], [])) (server_use (calls_once ([''b''], [''b2'']))
        (server_use (calls_once ([''a''], [''a2''])) (server_get ''/foo'' ''h'' new_server))))
      ''GET'' ''/foo?x=1''
     = [Did ''a'', Did ''b'', Did ''c'', Routed (Invoke ''h''), Did ''b2'', Did ''a2'']
   \<and> handleRequest
      (server_use (calls_once ([''c''], [])) (server_use (never_calls [''b''])
        (server_use (calls_once ([''a''], [''a2''])) (server_get ''/foo'' ''h'' new_server))))
      ''GET'' ''/foo?x=1''
     = [Did ''a'', Did ''b'', Did ''a2'']"
proof -
  define srv1 :: "(string, string) server" where
    "srv1 = server_use (calls_once ([''c''], [])) (server_use (calls_once ([''b''], [''b2'']))
        (server_use (calls_once ([''a''], [''a2''])) (server_get ''/foo'' ''h'' new_server)))"
  define srv2 :: "(string, string) server" where
    "srv2 = server_use (calls_once ([''c''], [])) (server_use (never_calls [''b''])
        (server_use (calls_once ([''a''], [''a2''])) (server_get ''/foo'' ''h'' new_server)))"
  have m1: "middleware srv1 = map calls_once [([''a''], [''a2'']), ([''b''], [''b2'']), ([''c''], [])]"
    by (simp add: srv1_def server_use_def server_get_def add_route_def new_server_def)
  have m2: "middleware srv2 =
      map calls_once [([''a''], [''a2''])] @ never_calls [''b''] # [calls_once ([''c''], [])]"
    by (simp add: srv2_def server_use_def server_get_def add_route_def new_server_def)
  have r1: "routeRequest srv1 (request_method ''GET'') (request_path ''/foo?x=1'') = Invoke ''h''"
    by (simp add: srv1_def server_use_def server_get_def add_route_def new_server_def
        routeRequest_def request_method_def request_path_def)
  from middleware_chain_order
    [where srv = srv1 and m = "''GET''" and u = "''/foo?x=1''"
      and stages = "[([''a''], [''a2'']), ([''b''], [''b2'']), ([''c''], [])]"]
    m1 r1
  have 1: "handleRequest srv1 ''GET'' ''/foo?x=1'' =
      [Did ''a'', Did ''b'', Did ''c'', Routed (Invoke ''h''), Did ''b2'', Did ''a2'']"
    by simp
  from middleware_chain_order
    [where srv = srv2 and m = "''GET''" and u = "''/foo?x=1''" and stages = "[([''a''], [''a2''])]"
      and ws = "[''b'']" and others = "[calls_once ([''c''], [])]"]
    m2
  have 2: "handleRequest srv2 ''GET'' ''/foo?x=1'' = [Did ''a'', Did ''b'', Did ''a2'']"
    by simp
  from 1 2 show ?thesis
    unfolding srv1_def srv2_def by (rule conjI)
qed

text \<open>
  C8 as stated fails: the stages share one index and nothing stops a stage from invoking
  its continuation twice. With a first stage that invokes it twice and a second stage
  that never invokes it, the second call resumes the chain behind the second stage and
  the request is dispatched.
\<close>

theorem middleware_second_next_counterexample:
  "handleRequest
      (server_use [] (server_use [Work ''a'', Next, Next] (server_get ''/foo'' ''h'' new_server)))
      ''GET'' ''/foo''
     = [Did ''a'', Routed (Invoke ''h'')]"
  by (simp add: handleRequest_def server_use_def server_get_def add_route_def new_server_def
      routeRequest_def request_method_def request_path_def run_next.simps)

section \<open>Properties of the service\<close>

lemma find_db_conds:
  "find_db data T (Some conds) =
     filter (\<lambda>ob. list_all (\<lambda>(key, val). strict_eq (js_get ob key) val) conds)
       (map snd (table_of data T))"
  by (simp add: find_db_def table_of_def split: option.splits)

lemma find_db_all: "find_db data T None = map snd (table_of data T)"
  by (simp add: find_db_def table_of_def split: option.splits)

lemma insert_db_table:
  "table_of (snd (insert_db data T r uuid t1 t2)) T =
     AList.update uuid (completed r uuid t1 t2) (table_of data T)"
  by (simp add: insert_db_def table_of_def completed_def createTable_def Let_def update_conv'
      split: option.splits)

lemma insert_db_other_table:
  "T' \<noteq> T \<Longrightarrow> table_of (snd (insert_db data T r uuid t1 t2)) T' = table_of data T'"
  by (simp add: insert_db_def table_of_def createTable_def Let_def update_conv'
      split: option.splits)

lemma values_update_subset:
  "set (map snd (AList.update k v al)) \<subseteq> insert v (set (map snd al))"
  by (induction al) auto

lemma insert_all_other_table:
  "T' \<noteq> T \<Longrightarrow> table_of (insert_all env k T rs data) T' = table_of data T'"
  by (induction rs arbitrary: k data) (simp_all add: insert_db_other_table split: prod.splits)

lemma insert_all_records:
  assumes "list_all P (map snd (table_of data T))"
    and "\<And>r uuid t1 t2. r \<in> set rs \<Longrightarrow> P (completed r uuid t1 t2)"
  shows "list_all P (map snd (table_of (insert_all env k T rs data) T))"
  using assms
proof (induction rs arbitrary: k data)
  case Nil
  then show ?case by simp
next
  case (Cons r rs)
  obtain uuid t1 t2 where e: "env k = (uuid, t1, t2)"
    by (cases "env k") auto
  have "set (map snd (table_of (snd (insert_db data T r uuid t1 t2)) T))
      \<subseteq> insert (completed r uuid t1 t2) (set (map snd (table_of data T)))"
    by (simp only: insert_db_table values_update_subset)
  moreover have "P (completed r uuid t1 t2)"
    by (rule Cons.prems(2)) simp
  moreover have "\<forall>ob \<in> set (map snd (table_of data T)). P ob"
    using Cons.prems(1) by (simp only: list_all_iff)
  ultimately have "\<forall>ob \<in> set (map snd (table_of (snd (insert_db data T r uuid t1 t2)) T)). P ob"
    by blast
  then have "list_all P (map snd (table_of (snd (insert_db data T r uuid t1 t2)) T))"
    by (simp only: list_all_iff)
  then have "list_all P (map snd (table_of (insert_all env (Suc k) T rs
      (snd (insert_db data T r uuid t1 t2))) T))"
    by (rule Cons.IH) (simp add: Cons.prems)
  then show ?case
    by (simp add: e)
qed

lemma js_get_completed:
  "k \<noteq> ''id'' \<Longrightarrow> k \<noteq> ''createdAt'' \<Longrightarrow> k \<noteq> ''updatedAt'' \<Longrightarrow>
     js_get (completed r uuid t1 t2) k = js_get r k"
  by (simp add: completed_def js_get_merge own_def)

lemma page_not_published:
  assumes "r \<in> set (pages tx)"
  shows "js_get (completed r uuid t1 t2) ''isPublished'' = Data VUndef"
proof -
  have "js_get r ''isPublished'' = Data VUndef"
    using assms
    by (auto simp: pages_def page_data_def js_get_def own_def inherited_def
        object_prototype_keys_def)
  moreover have "js_get (completed r uuid t1 t2) ''isPublished'' = js_get r ''isPublished''"
    by (rule js_get_completed) simp_all
  ultimately show ?thesis
    by simp
qed

lemma seeded_pages_not_published:
  "list_all (\<lambda>ob. js_get ob ''isPublished'' = Data VUndef)
     (map snd (table_of (setupDatabase env tx []) ''documentation_pages''))"
proof -
  have "list_all (\<lambda>ob. js_get ob ''isPublished'' = Data VUndef)
     (map snd (table_of (insert_all env 0 ''documentation_pages'' (pages tx) [])
        ''documentation_pages''))"
    by (rule insert_all_records) (simp_all add: table_of_def page_not_published)
  then show ?thesis
    by (simp add: setupDatabase_def insert_all_other_table)
qed

lemma find_published_seeded:
  "find_db (setupDatabase env tx []) ''documentation_pages''
     (Some ((''isPublished'', VBool True) # conds)) = []"
  "find_db (setupDatabase env tx []) ''documentation_pages''
     (Some [c, (''isPublished'', VBool True)]) = []"
  using seeded_pages_not_published [of env tx]
  by (auto simp: find_db_conds list_all_iff filter_empty_conv split: prod.splits)


lemma matches_completed:
  assumes "f1 \<noteq> ''id''" "f1 \<noteq> ''createdAt''" "f1 \<noteq> ''updatedAt''"
    and "f2 \<noteq> ''id''" "f2 \<noteq> ''createdAt''" "f2 \<noteq> ''updatedAt''"
  shows "matches f1 f2 q (completed r uuid t1 t2) = matches f1 f2 q r"
proof -
  have "lower_field (completed r uuid t1 t2) f1 = lower_field r f1"
    and "lower_field (completed r uuid t1 t2) f2 = lower_field r f2"
    by (simp_all add: lower_field_def js_get_completed assms)
  then show ?thesis
    by (simp only: matches_def)
qed

lemma example_no_getting:
  assumes "r \<in> set (examples tx)"
  shows "matches ''title'' ''description'' ''getting'' (completed r uuid t1 t2) = Inr False"
proof -
  have "matches ''title'' ''description'' ''getting'' r = Inr False"
    using assms
    by (auto simp: examples_def matches_def lower_field_def js_get_def own_def toLowerCase_def)
  then show ?thesis
    by (simp add: matches_completed)
qed

lemma filter_js_none: "list_all (\<lambda>x. p x = Inr False) xs \<Longrightarrow> filter_js p xs = Inr []"
  by (induction xs) simp_all

lemma seeded_examples_no_getting:
  "list_all (\<lambda>ob. matches ''title'' ''description'' ''getting'' ob = Inr False)
     (map snd (table_of (setupDatabase env tx []) ''documentation_examples''))"
proof -
  have "table_of (insert_all env 0 ''documentation_pages'' (pages tx) [])
      ''documentation_examples'' = table_of [] ''documentation_examples''"
    by (rule insert_all_other_table) simp
  then have empty: "table_of (insert_all env 0 ''documentation_pages'' (pages tx) [])
      ''documentation_examples'' = []"
    by (simp add: table_of_def)
  show ?thesis
    unfolding setupDatabase_def
    by (rule insert_all_records) (simp_all add: empty example_no_getting)
qed

lemma routes_of_service:
  "routes (setupRoutes (new_server :: ('l, handler) server)) =
     [(''GET'', [(''/'', Home), (''/:slug'', Slug), (''/examples'', Examples), (''/api'', Api),
                 (''/api/search'', Search)])]"
  "middleware (setupRoutes (new_server :: ('l, handler) server)) = []"
  by (simp_all add: setupRoutes_def server_get_def add_route_def new_server_def)

text \<open>The page is in the store: with nine different identifiers, a look-up by slug alone finds it.\<close>

lemma seeded_page_is_stored:
  "find_db (setupDatabase (\<lambda>k. (''uuid-'' @ digits k, 1000 + k, 1000 + k)) tx [])
     ''documentation_pages'' (Some [(''slug'', VStr ''getting-started'')]) =
   [[(''title'', VStr ''Getting Started''), (''slug'', VStr ''getting-started''),
     (''content'', VStr (gettingStartedContent tx)), (''category'', VStr ''getting-started''),
     (''order'', VNum 1),
     (''tags'', VArr [VStr ''introduction'', VStr ''setup'', VStr ''quick-start'']),
     (''id'', VStr ''uuid-0''), (''createdAt'', VDate 1000), (''updatedAt'', VDate 1000)]]"
  by (simp add: setupDatabase_def pages_def examples_def page_data_def insert_db_def
      createTable_def spread_def find_db_def js_get_def own_def Let_def)

text \<open>Had the page been stored with \<^verbatim>\<open>isPublished: true\<close>, the search would return it.\<close>

lemma search_finds_a_published_page:
  "search_handler
     [(''documentation_pages'',
        [(''u1'', [(''title'', VStr ''Getting Started''), (''content'', VStr ''Welcome''),
                   (''isPublished'', VBool True)])])]
     ''getting''
   = Inr ([[(''title'', VStr ''Getting Started''), (''content'', VStr ''Welcome''),
            (''isPublished'', VBool True)]], ''getting'')"
  by (simp add: search_handler_def find_db_def matches_def lower_field_def js_get_def own_def
      toLowerCase_def)

subsection \<open>What the search handler returns\<close>

text \<open>
  \<^verbatim>\<open>includes\<close> is containment as a substring. Where the titles, contents and descriptions
  are strings, the handler does not throw, and its results are the pages found with
  \<^verbatim>\<open>isPublished: true\<close> that mention the query in their title or content, followed by the
  examples that mention it in their title or description.
\<close>

lemma take_is_prefix: "take (length n) xs = n \<longleftrightarrow> (\<exists>post. xs = n @ post)"
proof
  assume "take (length n) xs = n"
  then have "xs = n @ drop (length n) xs"
    by (metis append_take_drop_id)
  then show "\<exists>post. xs = n @ post" ..
next
  assume "\<exists>post. xs = n @ post"
  then show "take (length n) xs = n" by auto
qed

lemma includes_str_iff: "includes_str hay needle \<longleftrightarrow> (\<exists>pre post. hay = pre @ needle @ post)"
proof (induction hay)
  case Nil
  show ?case by auto
next
  case (Cons c cs)
  have "(\<exists>pre post. c # cs = pre @ needle @ post) \<longleftrightarrow>
      (\<exists>post. c # cs = needle @ post) \<or> (\<exists>pre post. cs = pre @ needle @ post)"
  proof
    assume "\<exists>pre post. c # cs = pre @ needle @ post"
    then obtain pre post where e: "c # cs = pre @ needle @ post" by blast
    show "(\<exists>post. c # cs = needle @ post) \<or> (\<exists>pre post. cs = pre @ needle @ post)"
    proof (cases pre)
      case Nil
      with e show ?thesis by auto
    next
      case (Cons a pre')
      with e have "cs = pre' @ needle @ post" by simp
      then show ?thesis by blast
    qed
  next
    assume "(\<exists>post. c # cs = needle @ post) \<or> (\<exists>pre post. cs = pre @ needle @ post)"
    then show "\<exists>pre post. c # cs = pre @ needle @ post"
    proof
      assume "\<exists>post. c # cs = needle @ post"
      then obtain post where "c # cs = [] @ needle @ post" by auto
      then show ?thesis by blast
    next
      assume "\<exists>pre post. cs = pre @ needle @ post"
      then obtain pre post where "c # cs = (c # pre) @ needle @ post" by auto
      then show ?thesis by blast
    qed
  qed
  then show ?case
    using Cons.IH by (simp add: take_is_prefix del: take_Suc_Cons)
qed

lemma has_textD: "has_text ob k \<Longrightarrow> \<exists>s. js_get ob k = Data (VStr s)"
  by (auto simp: has_text_def split: jsany.splits jsval.splits)

lemma matches_total:
  assumes "has_text ob f1" and "has_text ob f2"
  shows "matches f1 f2 q ob = Inr (mentions ob f1 q \<or> mentions ob f2 q)"
proof -
  from assms obtain s1 s2 where "js_get ob f1 = Data (VStr s1)" and "js_get ob f2 = Data (VStr s2)"
    using has_textD by blast
  then show ?thesis
    by (simp add: matches_def lower_field_def mentions_def)
qed

lemma filter_js_total:
  "list_all (\<lambda>x. p x = Inr (q x)) xs \<Longrightarrow> filter_js p xs = Inr (filter q xs)"
  by (induction xs) simp_all

lemma search_handler_exact:
  assumes "list_all (\<lambda>ob. has_text ob ''title'' \<and> has_text ob ''content'')
      (find_db data ''documentation_pages'' (Some [(''isPublished'', VBool True)]))"
    and "list_all (\<lambda>ob. has_text ob ''title'' \<and> has_text ob ''description'')
      (find_db data ''documentation_examples'' None)"
  shows "search_handler data q =
     Inr (filter (\<lambda>ob. mentions ob ''title'' q \<or> mentions ob ''content'' q)
            (find_db data ''documentation_pages'' (Some [(''isPublished'', VBool True)]))
          @ filter (\<lambda>ob. mentions ob ''title'' q \<or> mentions ob ''description'' q)
              (find_db data ''documentation_examples'' None),
          q)"
proof -
  have p: "filter_js (matches ''title'' ''content'' q)
      (find_db data ''documentation_pages'' (Some [(''isPublished'', VBool True)])) =
      Inr (filter (\<lambda>ob. mentions ob ''title'' q \<or> mentions ob ''content'' q)
        (find_db data ''documentation_pages'' (Some [(''isPublished'', VBool True)])))"
    using assms(1) by (intro filter_js_total) (auto simp: list_all_iff matches_total)
  have e: "filter_js (matches ''title'' ''description'' q)
      (find_db data ''documentation_examples'' None) =
      Inr (filter (\<lambda>ob. mentions ob ''title'' q \<or> mentions ob ''description'' q)
        (find_db data ''documentation_examples'' None))"
    using assms(2) by (intro filter_js_total) (auto simp: list_all_iff matches_total)
  show ?thesis
    by (simp add: search_handler_def p e)
qed

section \<open>Claims about the service\<close>

text \<open>
  C1 on the code. The claim wants \<^verbatim>\<open>GET /s\<close> to reach the slug handler for a stored
  page with slug \<open>s\<close>. The dispatcher compares paths exactly and the handler is
  registered under the text \<^verbatim>\<open>/:slug\<close>: among the \<^verbatim>\<open>GET\<close> paths only \<^verbatim>\<open>/:slug\<close> itself is
  routed to the slug handler, and \<^verbatim>\<open>GET /getting-started\<close>, the path to which the home
  template links the first seeded page, gets the dispatcher's 404 page without any
  handler being invoked. Where the handler does run, its look-up asks for
  \<^verbatim>\<open>isPublished: true\<close>, a field that \<^verbatim>\<open>setupDatabase\<close> gives to no page, so it finds no
  page for any URL.
\<close>

theorem slug_route_only_matches_literally:
  "(routeRequest (setupRoutes (new_server :: (string, handler) server)) ''GET'' path = Invoke Slug
      \<longleftrightarrow> path = ''/:slug'')
   \<and> handleRequest (setupRoutes (new_server :: (string, handler) server)) ''GET''
        ''/getting-started'' = [Routed (NotFound404 ''/getting-started'')]
   \<and> handleRequest (setupRoutes (new_server :: (string, handler) server)) ''GET'' ''/:slug''
        = [Routed (Invoke Slug)]
   \<and> slug_of_url ''/:slug'' = '':slug''
   \<and> slug_pages (setupDatabase env tx []) url = []"
proof -
  have 1: "routeRequest (setupRoutes (new_server :: (string, handler) server)) ''GET'' path
      = Invoke Slug \<longleftrightarrow> path = ''/:slug''"
    by (simp add: routeRequest_def routes_of_service)
  have 2: "handleRequest (setupRoutes (new_server :: (string, handler) server)) ''GET''
        ''/getting-started'' = [Routed (NotFound404 ''/getting-started'')]"
    by (simp add: handleRequest_def routeRequest_def routes_of_service request_method_def
        request_path_def)
  have 3: "handleRequest (setupRoutes (new_server :: (string, handler) server)) ''GET'' ''/:slug''
        = [Routed (Invoke Slug)]"
    by (simp add: handleRequest_def routeRequest_def routes_of_service request_method_def
        request_path_def)
  have 4: "slug_of_url ''/:slug'' = '':slug''"
    by (simp add: slug_of_url_def)
  have 5: "slug_pages (setupDatabase env tx []) url = []"
    by (simp only: slug_pages_def find_published_seeded)
  from 1 2 3 4 5 show ?thesis
    by (intro conjI)
qed

text \<open>
  C9 on the code. The request \<^verbatim>\<open>GET /api/search?q=getting\<close> reaches the search handler,
  but after \<^verbatim>\<open>setupDatabase\<close> has seeded the page titled \<^verbatim>\<open>Getting Started\<close> the results
  are empty: the handler searches the pages found with \<^verbatim>\<open>isPublished: true\<close>, and the
  seeded pages carry no such field (the class default of \<^verbatim>\<open>DocumentationPage\<close> is never
  applied to them); no example mentions the term.
\<close>

theorem search_misses_seeded_page:
  "handleRequest (setupRoutes (new_server :: (string, handler) server)) ''GET''
      ''/api/search?q=getting'' = [Routed (Invoke Search)]
   \<and> search_handler (setupDatabase env tx []) ''getting'' = Inr ([], ''getting'')"
proof -
  have 1: "handleRequest (setupRoutes (new_server :: (string, handler) server)) ''GET''
      ''/api/search?q=getting'' = [Routed (Invoke Search)]"
    by (simp add: handleRequest_def routeRequest_def routes_of_service request_method_def
        request_path_def)
  have p: "find_db (setupDatabase env tx []) ''documentation_pages''
      (Some [(''isPublished'', VBool True)]) = []"
    by (rule find_published_seeded)
  have e: "filter_js (matches ''title'' ''description'' ''getting'')
      (find_db (setupDatabase env tx []) ''documentation_examples'' None) = Inr []"
    by (simp only: find_db_all filter_js_none [OF seeded_examples_no_getting])
  have 2: "search_handler (setupDatabase env tx []) ''getting'' = Inr ([], ''getting'')"
    by (simp add: search_handler_def p e)
  from 1 2 show ?thesis
    by (rule conjI)
qed

end
